theory Spec2Isabelle
  imports Main "HOL-Library.Word" "HOL-Library.Char_ord"
begin

unbundle bit_operations_syntax

section \<open>Types and the type registry (zng/type.go)\<close>

text \<open>
  A Go \<^verbatim>\<open>Type\<close> is an interface value holding a pointer to a type object. The thirteen
  primitive types are package-level singletons. A compound type object is immutable once
  built, so a pointer to it is modelled by the address it was allocated at together with
  the object's fields. \<^verbatim>\<open>SameType\<close> compares pointers.
\<close>

type_synonym addr = nat

datatype Type =
    TypeBool | TypeCount | TypeInt | TypeDouble | TypeTime | TypeInterval | TypeString
  | TypePattern | TypePort | TypeAddr | TypeSubnet | TypeEnum | TypeUnset
  | TypeSet addr Type
  | TypeVector addr Type
  | TypeRecord addr "Column list" string
and Column = Column (Name: string) (colType: Type)

datatype error =
    ErrLenUnset | ErrNotContainer | ErrNotVector | ErrIndex
  | UnknownType string
  | TypeAssertion
  | ErrTypeSyntax
  | ErrNesting
  | ErrBadTag
  | ErrTruncated
  | UnknownFieldCall string
  | UnknownFieldOp
  | ErrSyntax string
  | ErrRange string


text \<open>
  The global state: the map \<^verbatim>\<open>typeMap\<close> from type strings to types, and the next address
  the allocator hands out for a new type object. The mutex is not modelled: operations
  run one after the other.
\<close>

record registry =
  typeMap :: "string \<rightharpoonup> Type"
  nextAddr :: addr

definition typeMap0 :: "string \<rightharpoonup> Type" where
  "typeMap0 =
     [''bool'' \<mapsto> TypeBool, ''count'' \<mapsto> TypeCount, ''int'' \<mapsto> TypeInt,
      ''double'' \<mapsto> TypeDouble, ''time'' \<mapsto> TypeTime, ''interval'' \<mapsto> TypeInterval,
      ''string'' \<mapsto> TypeString, ''pattern'' \<mapsto> TypePattern, ''regexp'' \<mapsto> TypePattern,
      ''port'' \<mapsto> TypePort, ''addr'' \<mapsto> TypeAddr, ''subnet'' \<mapsto> TypeSubnet,
      ''enum'' \<mapsto> TypeEnum, ''unset'' \<mapsto> TypeUnset]"

definition registry0 :: registry where
  "registry0 = \<lparr>typeMap = typeMap0, nextAddr = 0\<rparr>"

text \<open>
  The sources do not include the printers (\<^verbatim>\<open>String\<close> of each type, \<^verbatim>\<open>recordString\<close>) nor
  the parsers of the bracketed bodies (\<^verbatim>\<open>parseSetTypeBody\<close>, \<^verbatim>\<open>parseVectorTypeBody\<close>,
  \<^verbatim>\<open>parseRecordTypeBody\<close>). The functions of type.go take them as parameters. A body
  parser reads and may extend the registry, and returns the rest of the input with a
  freshly built type object, or an error.
\<close>

type_synonym 'a parse_result = "(error + string \<times> 'a) \<times> registry"

record ext =
  String :: "Type \<Rightarrow> string"
  recordString :: "Column list \<Rightarrow> string"
  parseSetTypeBody :: "registry \<Rightarrow> string \<Rightarrow> Type parse_result"
  parseVectorTypeBody :: "registry \<Rightarrow> string \<Rightarrow> Type parse_result"
  parseRecordTypeBody :: "registry \<Rightarrow> string \<Rightarrow> Type parse_result"

definition addType :: "ext \<Rightarrow> registry \<Rightarrow> Type \<Rightarrow> Type \<times> registry" where
  "addType x st t =
     (let key = String x t in
      case typeMap st key of
        Some old \<Rightarrow> (old, st)
      | None \<Rightarrow> (t, st\<lparr>typeMap := (typeMap st)(key \<mapsto> t)\<rparr>))"

subsection \<open>Words\<close>

definition isIdChar :: "char \<Rightarrow> bool" where
  "isIdChar c =
     ((c \<ge> CHR ''a'' \<and> c \<le> CHR ''z'') \<or> (c \<ge> CHR ''A'' \<and> c \<le> CHR ''Z'') \<or>
      (c \<ge> CHR ''0'' \<and> c \<le> CHR ''9'') \<or> c = CHR ''_'' \<or> c = CHR ''.'')"

text \<open>
  \<^verbatim>\<open>strings.TrimSpace\<close> of the Go library removes leading and trailing white space as
  Unicode defines it. On the bytes of a string these are the six ASCII space bytes and
  the UTF-8 encodings of U+0085, U+00A0, U+1680, U+2000 to U+200A, U+2028, U+2029,
  U+202F, U+205F and U+3000.
\<close>

definition spaceTokens :: "string list" where
  "spaceTokens =
     [[CHR 0x09], [CHR 0x0A], [CHR 0x0B], [CHR 0x0C], [CHR 0x0D], [CHR 0x20],
      [CHR 0xC2, CHR 0x85], [CHR 0xC2, CHR 0xA0], [CHR 0xE1, CHR 0x9A, CHR 0x80],
      [CHR 0xE2, CHR 0x80, CHR 0x80], [CHR 0xE2, CHR 0x80, CHR 0x81],
      [CHR 0xE2, CHR 0x80, CHR 0x82], [CHR 0xE2, CHR 0x80, CHR 0x83],
      [CHR 0xE2, CHR 0x80, CHR 0x84], [CHR 0xE2, CHR 0x80, CHR 0x85],
      [CHR 0xE2, CHR 0x80, CHR 0x86], [CHR 0xE2, CHR 0x80, CHR 0x87],
      [CHR 0xE2, CHR 0x80, CHR 0x88], [CHR 0xE2, CHR 0x80, CHR 0x89],
      [CHR 0xE2, CHR 0x80, CHR 0x8A], [CHR 0xE2, CHR 0x80, CHR 0xA8],
      [CHR 0xE2, CHR 0x80, CHR 0xA9], [CHR 0xE2, CHR 0x80, CHR 0xAF],
      [CHR 0xE2, CHR 0x81, CHR 0x9F], [CHR 0xE3, CHR 0x80, CHR 0x80]]"

fun startsWith :: "string \<Rightarrow> string \<Rightarrow> bool" where
  "startsWith s [] = True"
| "startsWith [] (p # ps) = False"
| "startsWith (c # cs) (p # ps) = (c = p \<and> startsWith cs ps)"

definition leadingSpace :: "string list \<Rightarrow> string \<Rightarrow> nat" where
  "leadingSpace toks s =
     (case filter (startsWith s) toks of [] \<Rightarrow> 0 | tok # _ \<Rightarrow> length tok)"

function TrimLeft :: "string list \<Rightarrow> string \<Rightarrow> string" where
  "TrimLeft toks s =
     (if s \<noteq> [] \<and> leadingSpace toks s > 0 then TrimLeft toks (drop (leadingSpace toks s) s)
      else s)"
  by pat_completeness auto
termination
  by (relation "measure (\<lambda>(toks, s). length s)") auto

declare TrimLeft.simps [simp del]

definition TrimSpace :: "string \<Rightarrow> string" where
  "TrimSpace s = rev (TrimLeft (map rev spaceTokens) (rev (TrimLeft spaceTokens s)))"

function parseWord_loop :: "string \<Rightarrow> nat \<Rightarrow> nat" where
  "parseWord_loop inp off =
     (if off < length inp then
        (if \<not> isIdChar (inp ! off) then off else parseWord_loop inp (off + 1))
      else off)"
  by pat_completeness auto
termination
  by (relation "measure (\<lambda>(inp, off). length inp - off)") auto

declare parseWord_loop.simps [simp del]

definition parseWord :: "string \<Rightarrow> string \<times> string" where
  "parseWord inp0 =
     (let inp = TrimSpace inp0; off = parseWord_loop inp 0 in
      if off = 0 then ('''', '''') else (drop off inp, take off inp))"

subsection \<open>Looking types up\<close>

definition internBody :: "ext \<Rightarrow> Type parse_result \<Rightarrow> Type parse_result" where
  "internBody x r =
     (case r of
        (Inl err, st) \<Rightarrow> (Inl err, st)
      | (Inr (rest, t), st) \<Rightarrow> (case addType x st t of (t', st') \<Rightarrow> (Inr (rest, t'), st')))"

definition parseType :: "ext \<Rightarrow> registry \<Rightarrow> string \<Rightarrow> Type parse_result" where
  "parseType x st inp =
     (case typeMap st (TrimSpace inp) of
        Some t \<Rightarrow> (Inr ('''', t), st)
      | None \<Rightarrow>
          (case parseWord inp of (rest, word) \<Rightarrow>
             if word = '''' then (Inl (UnknownType inp), st)
             else (case typeMap st word of
                Some t \<Rightarrow> (Inr (rest, t), st)
              | None \<Rightarrow>
                  if word = ''set'' then internBody x (parseSetTypeBody x st rest)
                  else if word = ''vector'' then internBody x (parseVectorTypeBody x st rest)
                  else if word = ''record'' then internBody x (parseRecordTypeBody x st rest)
                  else (Inl (UnknownType word), st))))"

definition LookupType :: "ext \<Rightarrow> registry \<Rightarrow> string \<Rightarrow> (error + Type) \<times> registry" where
  "LookupType x st inp =
     (case parseType x st inp of
        (Inl err, st') \<Rightarrow> (Inl err, st')
      | (Inr (rest, typ), st') \<Rightarrow> (Inr typ, st'))"

definition LookupVectorType :: "ext \<Rightarrow> registry \<Rightarrow> Type \<Rightarrow> Type \<times> registry" where
  "LookupVectorType x st innerType =
     addType x (st\<lparr>nextAddr := nextAddr st + 1\<rparr>) (TypeVector (nextAddr st) innerType)"

text \<open>
  \<^verbatim>\<open>t.(*TypeRecord)\<close> panics when the stored type is not a record.
\<close>

definition asTypeRecord :: "Type \<Rightarrow> error + Type" where
  "asTypeRecord t = (case t of TypeRecord a cols key \<Rightarrow> Inr t | _ \<Rightarrow> Inl TypeAssertion)"

definition LookupTypeRecord :: "ext \<Rightarrow> registry \<Rightarrow> Column list \<Rightarrow> (error + Type) \<times> registry" where
  "LookupTypeRecord x st columns =
     (let s = recordString x columns in
      case typeMap st s of
        Some t \<Rightarrow> (asTypeRecord t, st)
      | None \<Rightarrow>
          (case typeMap st s of
             Some t \<Rightarrow> (asTypeRecord t, st)
           | None \<Rightarrow>
               (let rec = TypeRecord (nextAddr st) columns s in
                (Inr rec, st\<lparr>typeMap := (typeMap st)(s \<mapsto> rec), nextAddr := nextAddr st + 1\<rparr>))))"

subsection \<open>An instance of the printers and body parsers\<close>

text \<open>
  Modelled from the spec: the printers and the three body parsers, which the sources do
  not include. The printer emits the canonical form, without white space and with the
  members in declaration order; a primitive prints as its name in \<^verbatim>\<open>typeMap\<close>, a compound
  type as the word \<^verbatim>\<open>parseType\<close> dispatches on followed by its bracketed members. The body
  parsers follow the grammar \<^verbatim>\<open>"[" type "]"\<close> and \<^verbatim>\<open>"[" (col ("," col)*)? "]"\<close> with
  \<^verbatim>\<open>col := ident ":" type\<close> and identifiers \<^verbatim>\<open>[A-Za-z_$][A-Za-z0-9_$]*\<close>. Each builds a new
  type object. The instance \<open>grammar d\<close> accepts bodies nested at most \<open>d\<close> deep.
\<close>

fun String0 :: "Type \<Rightarrow> string"
  and columnString0 :: "Column \<Rightarrow> string"
  and columnsString0 :: "Column list \<Rightarrow> string" where
  "String0 TypeBool = ''bool''"
| "String0 TypeCount = ''count''"
| "String0 TypeInt = ''int''"
| "String0 TypeDouble = ''double''"
| "String0 TypeTime = ''time''"
| "String0 TypeInterval = ''interval''"
| "String0 TypeString = ''string''"
| "String0 TypePattern = ''pattern''"
| "String0 TypePort = ''port''"
| "String0 TypeAddr = ''addr''"
| "String0 TypeSubnet = ''subnet''"
| "String0 TypeEnum = ''enum''"
| "String0 TypeUnset = ''unset''"
| "String0 (TypeSet a t) = ''set['' @ String0 t @ '']''"
| "String0 (TypeVector a t) = ''vector['' @ String0 t @ '']''"
| "String0 (TypeRecord a cols key) = ''record['' @ columnsString0 cols @ '']''"
| "columnString0 (Column name t) = name @ '':'' @ String0 t"
| "columnsString0 [] = []"
| "columnsString0 (c # cs) =
     (if cs = [] then columnString0 c else columnString0 c @ '','' @ columnsString0 cs)"

definition recordString0 :: "Column list \<Rightarrow> string" where
  "recordString0 cols = ''record['' @ columnsString0 cols @ '']''"

definition isIdStart :: "char \<Rightarrow> bool" where
  "isIdStart c =
     ((c \<ge> CHR ''a'' \<and> c \<le> CHR ''z'') \<or> (c \<ge> CHR ''A'' \<and> c \<le> CHR ''Z'') \<or>
      c = CHR ''_'' \<or> c = CHR ''$'')"

definition isIdContinue :: "char \<Rightarrow> bool" where
  "isIdContinue c = (isIdStart c \<or> (c \<ge> CHR ''0'' \<and> c \<le> CHR ''9''))"

definition parseIdent :: "string \<Rightarrow> (string \<times> string) option" where
  "parseIdent s =
     (case s of
        [] \<Rightarrow> None
      | c # cs \<Rightarrow>
          if isIdStart c then Some (dropWhile isIdContinue cs, c # takeWhile isIdContinue cs)
          else None)"

definition parseInnerBody ::
  "(registry \<Rightarrow> string \<Rightarrow> Type parse_result) \<Rightarrow> (addr \<Rightarrow> Type \<Rightarrow> Type) \<Rightarrow>
   registry \<Rightarrow> string \<Rightarrow> Type parse_result" where
  "parseInnerBody pt mk st inp =
     (case inp of
        [] \<Rightarrow> (Inl ErrTypeSyntax, st)
      | c # r \<Rightarrow>
          if c \<noteq> CHR ''['' then (Inl ErrTypeSyntax, st)
          else (case pt st r of
             (Inl err, st') \<Rightarrow> (Inl err, st')
           | (Inr (rest, t), st') \<Rightarrow>
               (case rest of
                  [] \<Rightarrow> (Inl ErrTypeSyntax, st')
                | c' # rest' \<Rightarrow>
                    if c' \<noteq> CHR '']'' then (Inl ErrTypeSyntax, st')
                    else (Inr (rest', mk (nextAddr st') t),
                          st'\<lparr>nextAddr := nextAddr st' + 1\<rparr>))))"

primrec parseColumns ::
  "(registry \<Rightarrow> string \<Rightarrow> Type parse_result) \<Rightarrow> nat \<Rightarrow> registry \<Rightarrow> string \<Rightarrow>
   Column list \<Rightarrow> (Column list) parse_result" where
  "parseColumns pt 0 st inp cols = (Inl ErrTypeSyntax, st)"
| "parseColumns pt (Suc n) st inp cols =
     (case parseIdent inp of
        None \<Rightarrow> (Inl ErrTypeSyntax, st)
      | Some (rest, name) \<Rightarrow>
          (case rest of
             [] \<Rightarrow> (Inl ErrTypeSyntax, st)
           | c # r \<Rightarrow>
               if c \<noteq> CHR '':'' then (Inl ErrTypeSyntax, st)
               else (case pt st r of
                  (Inl err, st') \<Rightarrow> (Inl err, st')
                | (Inr (rest', t), st') \<Rightarrow>
                    (case rest' of
                       [] \<Rightarrow> (Inl ErrTypeSyntax, st')
                     | c' # r' \<Rightarrow>
                         if c' = CHR '','' then parseColumns pt n st' r' (cols @ [Column name t])
                         else if c' = CHR '']'' then (Inr (r', cols @ [Column name t]), st')
                         else (Inl ErrTypeSyntax, st')))))"

definition parseRecordBody ::
  "(registry \<Rightarrow> string \<Rightarrow> Type parse_result) \<Rightarrow> registry \<Rightarrow> string \<Rightarrow> Type parse_result" where
  "parseRecordBody pt st inp =
     (case inp of
        [] \<Rightarrow> (Inl ErrTypeSyntax, st)
      | c # r \<Rightarrow>
          if c \<noteq> CHR ''['' then (Inl ErrTypeSyntax, st)
          else (case (case r of
                        [] \<Rightarrow> (Inl ErrTypeSyntax, st)
                      | c' # r' \<Rightarrow>
                          if c' = CHR '']'' then (Inr (r', []), st)
                          else parseColumns pt (length r) st r []) of
             (Inl err, st') \<Rightarrow> (Inl err, st')
           | (Inr (rest, cols), st') \<Rightarrow>
               (Inr (rest, TypeRecord (nextAddr st') cols (recordString0 cols)),
                st'\<lparr>nextAddr := nextAddr st' + 1\<rparr>)))"

primrec grammar :: "nat \<Rightarrow> ext" where
  "grammar 0 =
     \<lparr>String = String0, recordString = recordString0,
      parseSetTypeBody = (\<lambda>st inp. (Inl ErrNesting, st)),
      parseVectorTypeBody = (\<lambda>st inp. (Inl ErrNesting, st)),
      parseRecordTypeBody = (\<lambda>st inp. (Inl ErrNesting, st))\<rparr>"
| "grammar (Suc d) =
     \<lparr>String = String0, recordString = recordString0,
      parseSetTypeBody = parseInnerBody (parseType (grammar d)) TypeSet,
      parseVectorTypeBody = parseInnerBody (parseType (grammar d)) TypeVector,
      parseRecordTypeBody = parseRecordBody (parseType (grammar d))\<rparr>"

subsection \<open>Predicates used in the statements\<close>

text \<open>
  An ASCII byte other than the six ASCII space bytes: no white space of \<^verbatim>\<open>TrimSpace\<close> begins
  or ends with it.
\<close>

definition asciiNonSpace :: "char \<Rightarrow> bool" where
  "asciiNonSpace c =
     ((of_char c :: nat) < 128 \<and> (of_char c :: nat) \<notin> {9, 10, 11, 12, 13, 32})"

text \<open>
  The registry invariant: every type object stored in \<^verbatim>\<open>typeMap\<close> is also stored under
  its own printed form.
\<close>

definition registered :: "ext \<Rightarrow> registry \<Rightarrow> bool" where
  "registered x st = (\<forall>k t. typeMap st k = Some t \<longrightarrow> typeMap st (String x t) = Some t)"

text \<open>
  A parser keeps the invariant; and the registries that the exported operations reach
  from the initial one.
\<close>

definition preserving :: "ext \<Rightarrow> (registry \<Rightarrow> string \<Rightarrow> 'a parse_result) \<Rightarrow> bool" where
  "preserving x p =
     (\<forall>st inp res st'. registered x st \<longrightarrow> p st inp = (res, st') \<longrightarrow> registered x st')"

inductive reachable :: "ext \<Rightarrow> registry \<Rightarrow> bool" for x :: ext where
  initial: "reachable x registry0"
| lookupType: "reachable x st \<Longrightarrow> LookupType x st inp = (res, st') \<Longrightarrow> reachable x st'"
| lookupVectorType:
    "reachable x st \<Longrightarrow> LookupVectorType x st innerType = (h, st') \<Longrightarrow> reachable x st'"
| lookupTypeRecord:
    "reachable x st \<Longrightarrow> LookupTypeRecord x st columns = (res, st') \<Longrightarrow> reachable x st'"

text \<open>
  The identifiers of the spec, \<^verbatim>\<open>[A-Za-z_$][A-Za-z0-9_$]*\<close>, in the spec's words.
\<close>

definition specIdent :: "string \<Rightarrow> bool" where
  "specIdent s = (case s of [] \<Rightarrow> False | c # cs \<Rightarrow> isIdStart c \<and> list_all isIdContinue cs)"

section \<open>Values and container bodies (zng/type.go)\<close>

type_synonym byte = "8 word"
type_synonym Bytes = "byte list"

text \<open>
  A value is a type and a body (\<^verbatim>\<open>TypedEncoding\<close> in type.go, \<^verbatim>\<open>zng.Value\<close> in fieldexpr.go).
  Either may be nil: \<^verbatim>\<open>zng.Value{}\<close> is the empty value, and a nil body under a type is the
  unset value of that type.
\<close>

record Value =
  Type :: "Type option"
  Body :: "Bytes option"

definition emptyValue :: Value where
  "emptyValue = \<lparr>Type = None, Body = None\<rparr>"

text \<open>
  Modelled from the spec: the iterator of package zcode, which the sources do not include.
  \<^verbatim>\<open>zcode.Iter\<close> is the byte slice that remains; it is done when no byte remains. \<^verbatim>\<open>Next\<close>
  reads a tag, a uvarint (base 128, least significant group first, bit 7 set on every
  byte but the last, at most 64 bits). Tag 0 is an unset primitive and tag 1 an unset
  container; otherwise, with \<open>t = tag - 2\<close>, the body is the next \<open>t >> 1\<close> bytes and
  \<open>t & 1\<close> marks a container. A truncated input fails.
\<close>

fun uvarint_from :: "nat \<Rightarrow> nat \<Rightarrow> Bytes \<Rightarrow> (nat \<times> Bytes) option" where
  "uvarint_from shift acc [] = None"
| "uvarint_from shift acc (b # bs) =
     (if b < 0x80 then
        (let v = acc + unat b * 2 ^ shift in if v < 2 ^ 64 then Some (v, bs) else None)
      else uvarint_from (shift + 7) (acc + unat (b AND 0x7F) * 2 ^ shift) bs)"

definition uvarint :: "Bytes \<Rightarrow> (nat \<times> Bytes) option" where
  "uvarint bs = uvarint_from 0 0 bs"

definition Done :: "Bytes \<Rightarrow> bool" where
  "Done it = (it = [])"

definition Next :: "Bytes \<Rightarrow> error + (Bytes option \<times> bool \<times> Bytes)" where
  "Next it =
     (case uvarint it of
        None \<Rightarrow> Inl ErrBadTag
      | Some (tag, rest) \<Rightarrow>
          if tag = 0 then Inr (None, False, rest)
          else if tag = 1 then Inr (None, True, rest)
          else (let t = tag - 2; n = t div 2 in
                if length rest < n then Inl ErrTruncated
                else Inr (Some (take n rest), t mod 2 = 1, drop n rest)))"

definition Iter :: "Value \<Rightarrow> Bytes" where
  "Iter e = (case Body e of None \<Rightarrow> [] | Some b \<Rightarrow> b)"

lemma uvarint_from_shrinks:
  "uvarint_from shift acc bs = Some (v, rest) \<Longrightarrow> length rest < length bs"
proof (induction shift acc bs rule: uvarint_from.induct)
  case (1 shift acc)
  then show ?case by simp
next
  case (2 shift acc b bs)
  show ?case
  proof (cases "b < 0x80")
    case True
    with 2(2) show ?thesis by (auto simp: Let_def split: if_splits)
  next
    case False
    with 2 have "length rest < length bs" by simp
    then show ?thesis by simp
  qed
qed

lemma Next_shrinks: "Next it = Inr (zv, c, it') \<Longrightarrow> length it' < length it"
  by (auto simp: Next_def uvarint_def Let_def split: option.splits if_splits
      dest!: uvarint_from_shrinks)

text \<open>
  The elements of a container body, one per step of the iterator; or the error of the step
  that fails.
\<close>

function elements :: "Bytes \<Rightarrow> error + Bytes option list" where
  "elements it =
     (if Done it then Inr []
      else (case Next it of
         Inl err \<Rightarrow> Inl err
       | Inr (zv, c, it') \<Rightarrow>
           (case elements it' of Inl err \<Rightarrow> Inl err | Inr zvs \<Rightarrow> Inr (zv # zvs))))"
  by pat_completeness auto
termination
  by (relation "measure length") (auto dest: Next_shrinks)

declare elements.simps [simp del]

definition InnerType :: "Type option \<Rightarrow> Type option" where
  "InnerType typ =
     (case typ of
        Some (TypeSet a innerType) \<Rightarrow> Some innerType
      | Some (TypeVector a t) \<Rightarrow> Some t
      | _ \<Rightarrow> None)"

definition IsContainerType :: "Type option \<Rightarrow> bool" where
  "IsContainerType typ =
     (case typ of
        Some (TypeSet a t) \<Rightarrow> True
      | Some (TypeVector a t) \<Rightarrow> True
      | Some (TypeRecord a cols key) \<Rightarrow> True
      | _ \<Rightarrow> False)"

text \<open>
  The loops over a body, \<^verbatim>\<open>for it := e.Iter(); !it.Done(); { ... it.Next() ... }\<close>. The
  counters are Go \<^verbatim>\<open>int\<close>s of 64 bits, which no body can overflow, and the index is an
  \<^verbatim>\<open>int64\<close>: both are integers here. On an error Go returns the error with the count -1
  or with the empty value; the model returns the error alone.
\<close>

function ContainerLength_loop :: "Bytes \<Rightarrow> int \<Rightarrow> error + int" where
  "ContainerLength_loop it n =
     (if \<not> Done it then
        (case Next it of
           Inl err \<Rightarrow> Inl err
         | Inr (zv, c, it') \<Rightarrow> ContainerLength_loop it' (n + 1))
      else Inr n)"
  by pat_completeness auto
termination
  by (relation "measure (\<lambda>(it, n). length it)") (auto dest: Next_shrinks)

declare ContainerLength_loop.simps [simp del]

definition ContainerLength :: "Value \<Rightarrow> error + int" where
  "ContainerLength e =
     (case Type e of
        Some (TypeSet a t) \<Rightarrow>
          if Body e = None then Inl ErrLenUnset else ContainerLength_loop (Iter e) 0
      | Some (TypeVector a t) \<Rightarrow>
          if Body e = None then Inl ErrLenUnset else ContainerLength_loop (Iter e) 0
      | _ \<Rightarrow> Inl ErrNotContainer)"

function VectorIndex_loop :: "Type \<Rightarrow> int \<Rightarrow> int \<Rightarrow> Bytes \<Rightarrow> error + Value" where
  "VectorIndex_loop typ idx i it =
     (if \<not> Done it then
        (case Next it of
           Inl err \<Rightarrow> Inl err
         | Inr (zv, c, it') \<Rightarrow>
             if i = idx then Inr \<lparr>Type = Some typ, Body = zv\<rparr>
             else VectorIndex_loop typ idx (i + 1) it')
      else Inl ErrIndex)"
  by pat_completeness auto
termination
  by (relation "measure (\<lambda>(typ, idx, i, it). length it)") (auto dest: Next_shrinks)

declare VectorIndex_loop.simps [simp del]

definition VectorIndex :: "Value \<Rightarrow> int \<Rightarrow> error + Value" where
  "VectorIndex e idx =
     (case Type e of
        Some (TypeVector a typ) \<Rightarrow>
          if idx < 0 then Inl ErrIndex else VectorIndex_loop typ idx 0 (Iter e)
      | _ \<Rightarrow> Inl ErrNotVector)"

function Elements_loop :: "Type \<Rightarrow> Bytes \<Rightarrow> Value list \<Rightarrow> error + Value list" where
  "Elements_loop innerType it els =
     (if \<not> Done it then
        (case Next it of
           Inl err \<Rightarrow> Inl err
         | Inr (zv, c, it') \<Rightarrow>
             Elements_loop innerType it' (els @ [\<lparr>Type = Some innerType, Body = zv\<rparr>]))
      else Inr els)"
  by pat_completeness auto
termination
  by (relation "measure (\<lambda>(innerType, it, els). length it)") (auto dest: Next_shrinks)

declare Elements_loop.simps [simp del]

definition Elements :: "Value \<Rightarrow> error + Value list" where
  "Elements e =
     (case InnerType (Type e) of
        None \<Rightarrow> Inl ErrNotContainer
      | Some innerType \<Rightarrow> Elements_loop innerType (Iter e) [])"

section \<open>The field-path evaluator (expr/fieldexpr.go)\<close>

text \<open>
  \<^verbatim>\<open>arrayIndex.apply\<close> calls the index operation of the value, which type.go has under the
  name \<^verbatim>\<open>VectorIndex\<close>.
\<close>

definition arrayIndex_apply :: "int \<Rightarrow> Value \<Rightarrow> Value" where
  "arrayIndex_apply idx e =
     (case VectorIndex e idx of
        Inl err \<Rightarrow>
          if err = ErrIndex then \<lparr>Type = InnerType (Type e), Body = None\<rparr> else emptyValue
      | Inr el \<Rightarrow> el)"

text \<open>
  The inner loop of \<^verbatim>\<open>fieldRead.apply\<close>, \<^verbatim>\<open>for i := 0; i <= n; i++\<close>, with the number of
  steps left as its first argument: \<open>None\<close> is the early return of the empty value, and
  \<open>Some v\<close> the body \<open>v\<close> of the last element read.
\<close>

fun fieldRead_steps :: "nat \<Rightarrow> Bytes \<Rightarrow> Bytes option \<Rightarrow> Bytes option option" where
  "fieldRead_steps 0 it v = Some v"
| "fieldRead_steps (Suc k) it v =
     (if Done it then None
      else (case Next it of
         Inl err \<Rightarrow> None
       | Inr (zv, c, it') \<Rightarrow> fieldRead_steps k it' zv))"

fun fieldRead_columns :: "string \<Rightarrow> Value \<Rightarrow> nat \<Rightarrow> Column list \<Rightarrow> Value" where
  "fieldRead_columns field e n [] = emptyValue"
| "fieldRead_columns field e n (col # cols) =
     (if Name col = field then
        (case fieldRead_steps (n + 1) (Iter e) None of
           None \<Rightarrow> emptyValue
         | Some v \<Rightarrow> \<lparr>Type = Some (colType col), Body = v\<rparr>)
      else fieldRead_columns field e (n + 1) cols)"

definition fieldRead_apply :: "string \<Rightarrow> Value \<Rightarrow> Value" where
  "fieldRead_apply field e =
     (case Type e of
        Some (TypeRecord a cols key) \<Rightarrow> fieldRead_columns field e 0 cols
      | _ \<Rightarrow> emptyValue)"

datatype fieldop = arrayIndex int | fieldRead string

fun apply_op :: "fieldop \<Rightarrow> Value \<Rightarrow> Value" where
  "apply_op (arrayIndex idx) e = arrayIndex_apply idx e"
| "apply_op (fieldRead field) e = fieldRead_apply field e"

text \<open>
  The nodes of a field expression (package ast): a field read, a call with the fields
  \<^verbatim>\<open>Fn\<close>, \<^verbatim>\<open>Param\<close> and \<^verbatim>\<open>Field\<close>, or any other node.
\<close>

datatype FieldExpr =
    FieldRead string
  | FieldCall string string FieldExpr
  | OtherNode

text \<open>
  \<^verbatim>\<open>strconv.ParseInt(s, 10, 64)\<close> of the Go library: an optional sign, then
  \<^verbatim>\<open>ParseUint\<close> on the rest, which reads decimal digits, at least one, and fails with a
  syntax error at the first other character or with a range error as soon as the value
  leaves 64 bits; the signed value must fit 64 bits.
\<close>

definition isDigit :: "char \<Rightarrow> bool" where
  "isDigit c = (c \<ge> CHR ''0'' \<and> c \<le> CHR ''9'')"

fun ParseUint_loop :: "string \<Rightarrow> nat \<Rightarrow> string \<Rightarrow> error + nat" where
  "ParseUint_loop s0 n [] = Inr n"
| "ParseUint_loop s0 n (c # cs) =
     (if \<not> isDigit c then Inl (ErrSyntax s0)
      else if n \<ge> (2 ^ 64 - 1) div 10 + 1 then Inl (ErrRange s0)
      else (let n1 = n * 10 + (of_char c - 48) in
            if n1 > 2 ^ 64 - 1 then Inl (ErrRange s0) else ParseUint_loop s0 n1 cs))"

definition ParseUint :: "string \<Rightarrow> string \<Rightarrow> error + nat" where
  "ParseUint s0 s = (if s = [] then Inl (ErrSyntax s0) else ParseUint_loop s0 0 s)"

definition ParseInt :: "string \<Rightarrow> error + int" where
  "ParseInt s0 =
     (if s0 = [] then Inl (ErrSyntax s0)
      else (let neg = (hd s0 = CHR ''-'');
                s = (if hd s0 = CHR ''+'' \<or> hd s0 = CHR ''-'' then tl s0 else s0)
            in case ParseUint s0 s of
                 Inl err \<Rightarrow> Inl err
               | Inr un \<Rightarrow>
                   if \<not> neg \<and> un \<ge> 2 ^ 63 then Inl (ErrRange s0)
                   else if neg \<and> un > 2 ^ 63 then Inl (ErrRange s0)
                   else Inr (if neg then - int un else int un)))"

text \<open>
  The first loop of \<^verbatim>\<open>CompileFieldExpr\<close>: it walks the expression from the outside in and
  prepends each operation, so that the list ends in evaluation order.
\<close>

fun collapse :: "FieldExpr \<Rightarrow> fieldop list \<Rightarrow> error + string \<times> fieldop list" where
  "collapse (FieldRead field) ops = Inr (field, ops)"
| "collapse (FieldCall fn param node) ops =
     (if fn = ''Index'' then
        (case ParseInt param of
           Inl err \<Rightarrow> Inl err
         | Inr idx \<Rightarrow> collapse node (arrayIndex idx # ops))
      else if fn = ''RecordFieldRead'' then collapse node (fieldRead param # ops)
      else Inl (UnknownFieldCall fn))"
| "collapse OtherNode ops = Inl UnknownFieldOp"

fun apply_ops :: "fieldop list \<Rightarrow> Value \<Rightarrow> Value" where
  "apply_ops [] e = e"
| "apply_ops (op # ops) e =
     (let e' = apply_op op e in if Type e' = None then e' else apply_ops ops e')"

text \<open>
  Modelled from the spec: the record value and its two accessors, which the sources do
  not include. A record value is a record type and the bytes of its body. The column
  table \<^verbatim>\<open>LUT\<close> of a record type gives the position of a column name (names are unique in a
  record type). \<^verbatim>\<open>Value(col)\<close> advances the iterator over the body to the position of the
  column and yields the column's type with the bytes found there; when the body ends
  before, or a step fails, it yields the empty value.
\<close>

datatype Record = Record (recType: Type) (Raw: Bytes)

definition LUT :: "Type \<Rightarrow> string \<rightharpoonup> nat" where
  "LUT typ =
     (case typ of
        TypeRecord a cols key \<Rightarrow> map_of (zip (map Name cols) [0..<length cols])
      | _ \<Rightarrow> Map.empty)"

definition Record_Value :: "Record \<Rightarrow> nat \<Rightarrow> Value" where
  "Record_Value r col =
     (case recType r of
        TypeRecord a cols key \<Rightarrow>
          if col < length cols then
            (case fieldRead_steps (col + 1) (Raw r) None of
               None \<Rightarrow> emptyValue
             | Some v \<Rightarrow> \<lparr>Type = Some (colType (cols ! col)), Body = v\<rparr>)
          else emptyValue
      | _ \<Rightarrow> emptyValue)"

definition resolver :: "string \<Rightarrow> fieldop list \<Rightarrow> Record \<Rightarrow> Value" where
  "resolver field ops r =
     (case LUT (recType r) field of
        None \<Rightarrow> emptyValue
      | Some col \<Rightarrow> apply_ops ops (Record_Value r col))"

definition CompileFieldExpr :: "FieldExpr \<Rightarrow> error + (Record \<Rightarrow> Value)" where
  "CompileFieldExpr node =
     (case collapse node [] of
        Inl err \<Rightarrow> Inl err
      | Inr (field, ops) \<Rightarrow> Inr (resolver field ops))"

subsection \<open>Compiling and evaluating, and the records of the examples\<close>

definition evalFieldExpr :: "FieldExpr \<Rightarrow> Record \<Rightarrow> error + Value" where
  "evalFieldExpr node r =
     (case CompileFieldExpr node of Inl err \<Rightarrow> Inl err | Inr f \<Rightarrow> Inr (f r))"

text \<open>
  The record types of the spec's scenario, built as \<^verbatim>\<open>LookupTypeRecord\<close> builds them. The
  64-bit floating-point type of type.go is \<^verbatim>\<open>TypeDouble\<close>.
\<close>

definition LL :: Type where
  "LL = TypeRecord 0 [Column ''compass'' TypeString, Column ''degree'' TypeDouble]
          (recordString0 [Column ''compass'' TypeString, Column ''degree'' TypeDouble])"

definition cityType :: Type where
  "cityType = TypeRecord 1 [Column ''city'' TypeString, Column ''lat'' LL, Column ''long'' LL]
          (recordString0 [Column ''city'' TypeString, Column ''lat'' LL, Column ''long'' LL])"

text \<open>
  The value \<^verbatim>\<open>[NorthPole;[N;90;]-;]\<close> in its binary form: the nine bytes of the string under
  tag 20, the container of \<^verbatim>\<open>N\<close> (tag 4) and the eight bytes of 90.0 (tag 18) under tag 25, and
  tag 1 for the unset container.
\<close>

definition northPole :: Record where
  "northPole = Record cityType
     [0x14, 0x4E, 0x6F, 0x72, 0x74, 0x68, 0x50, 0x6F, 0x6C, 0x65,
      0x19, 0x04, 0x4E, 0x12, 0x00, 0x00, 0x00, 0x00, 0x00, 0x80, 0x56, 0x40,
      0x01]"

definition long_degree :: FieldExpr where
  "long_degree = FieldCall ''RecordFieldRead'' ''degree'' (FieldRead ''long'')"

definition lat_degree :: FieldExpr where
  "lat_degree = FieldCall ''RecordFieldRead'' ''degree'' (FieldRead ''lat'')"

section \<open>Properties of the word reader\<close>

lemma parseWord_loop_takeWhile:
  "off \<le> length s \<Longrightarrow> parseWord_loop s off = off + length (takeWhile isIdChar (drop off s))"
proof (induction s off rule: parseWord_loop.induct)
  case (1 inp off)
  show ?case
  proof (cases "off < length inp")
    case False
    then show ?thesis by (simp add: parseWord_loop.simps [of inp off])
  next
    case True
    then have d: "drop off inp = inp ! off # drop (Suc off) inp"
      by (simp add: Cons_nth_drop_Suc)
    show ?thesis
    proof (cases "isIdChar (inp ! off)")
      case False
      with True d show ?thesis by (simp add: parseWord_loop.simps [of inp off])
    next
      case id: True
      with True have "parseWord_loop inp off = parseWord_loop inp (off + 1)"
        by (simp add: parseWord_loop.simps [of inp off])
      also have "\<dots> = (off + 1) + length (takeWhile isIdChar (drop (off + 1) inp))"
        using "1.IH" True id by simp
      finally show ?thesis using d id by simp
    qed
  qed
qed

lemma parseWord_takeWhile:
  "parseWord s =
     (if takeWhile isIdChar (TrimSpace s) = [] then ('''', '''')
      else (dropWhile isIdChar (TrimSpace s), takeWhile isIdChar (TrimSpace s)))"
proof -
  have l: "parseWord_loop (TrimSpace s) 0 = length (takeWhile isIdChar (TrimSpace s))"
    using parseWord_loop_takeWhile [of 0 "TrimSpace s"] by simp
  show ?thesis
    unfolding parseWord_def Let_def l
    by (simp add: takeWhile_eq_take [symmetric] dropWhile_eq_drop [symmetric])
qed

lemma isIdChar_chars:
  "isIdChar c \<longleftrightarrow>
     c \<in> set ''abcdefghijklmnopqrstuvwxyzABCDEFGHIJKLMNOPQRSTUVWXYZ0123456789_.''"
proof (cases c)
  case (Char b0 b1 b2 b3 b4 b5 b6 b7)
  show ?thesis
    unfolding Char isIdChar_def less_eq_char_def
    by (cases b0; cases b1; cases b2; cases b3; cases b4; cases b5; cases b6; cases b7; simp)
qed

lemma filter_startsWith_none:
  "\<forall>t \<in> set toks. t \<noteq> [] \<and> hd t \<noteq> c \<Longrightarrow> filter (startsWith (c # s)) toks = []"
proof (induction toks)
  case Nil
  then show ?case by simp
next
  case (Cons t toks)
  then obtain p ps where "t = p # ps" "p \<noteq> c" by (cases t) auto
  with Cons show ?case by simp
qed

lemma spaceTokens_heads:
  "\<forall>t \<in> set spaceTokens. t \<noteq> [] \<and>
     ((of_char (hd t) :: nat) \<in> {9, 10, 11, 12, 13, 32} \<or> (of_char (hd t) :: nat) \<ge> 128)"
  by (simp add: spaceTokens_def)

lemma spaceTokens_lasts:
  "\<forall>t \<in> set (map rev spaceTokens). t \<noteq> [] \<and>
     ((of_char (hd t) :: nat) \<in> {9, 10, 11, 12, 13, 32} \<or> (of_char (hd t) :: nat) \<ge> 128)"
  by (simp add: spaceTokens_def)

lemma leadingSpace_ascii:
  assumes "asciiNonSpace c"
  shows "leadingSpace spaceTokens (c # s) = 0"
    and "leadingSpace (map rev spaceTokens) (c # s) = 0"
proof -
  have "\<forall>t \<in> set spaceTokens. t \<noteq> [] \<and> hd t \<noteq> c"
    using spaceTokens_heads assms unfolding asciiNonSpace_def by fastforce
  then show "leadingSpace spaceTokens (c # s) = 0"
    by (simp add: leadingSpace_def filter_startsWith_none)
  have "\<forall>t \<in> set (map rev spaceTokens). t \<noteq> [] \<and> hd t \<noteq> c"
    using spaceTokens_lasts assms unfolding asciiNonSpace_def by fastforce
  then show "leadingSpace (map rev spaceTokens) (c # s) = 0"
    by (simp add: leadingSpace_def filter_startsWith_none del: set_map)
qed

lemma TrimLeft_no_space:
  "leadingSpace toks (c # cs) = 0 \<Longrightarrow> TrimLeft toks (c # cs) = c # cs"
  by (subst TrimLeft.simps) simp

lemma TrimSpace_ascii_edges:
  assumes "s \<noteq> []" "asciiNonSpace (hd s)" "asciiNonSpace (last s)"
  shows "TrimSpace s = s"
proof -
  obtain c cs where s: "s = c # cs" using assms(1) by (cases s) auto
  have "asciiNonSpace c" using assms(2) s by simp
  then have l: "TrimLeft spaceTokens s = s"
    unfolding s by (intro TrimLeft_no_space leadingSpace_ascii(1))
  obtain d ds where r: "rev s = d # ds" using assms(1) by (cases "rev s") auto
  from r have "rev (rev s) = rev (d # ds)" by (simp only:)
  then have "s = rev ds @ [d]" by simp
  then have "last s = d" by simp
  then have "asciiNonSpace d" using assms(3) by simp
  then have "TrimLeft (map rev spaceTokens) (rev s) = rev s"
    unfolding r by (intro TrimLeft_no_space leadingSpace_ascii(2))
  then show ?thesis by (simp add: TrimSpace_def l)
qed

lemma isIdChar_asciiNonSpace: "isIdChar c \<Longrightarrow> asciiNonSpace c"
proof -
  assume "isIdChar c"
  then have mem: "c \<in> set ''abcdefghijklmnopqrstuvwxyzABCDEFGHIJKLMNOPQRSTUVWXYZ0123456789_.''"
    by (simp only: isIdChar_chars)
  have "\<forall>c \<in> set ''abcdefghijklmnopqrstuvwxyzABCDEFGHIJKLMNOPQRSTUVWXYZ0123456789_.''.
      asciiNonSpace c"
    by (simp add: asciiNonSpace_def)
  then show ?thesis using mem by (rule bspec)
qed

lemma parseWord_whole:
  assumes "w \<noteq> []" "\<forall>c \<in> set w. isIdChar c"
  shows "parseWord w = ('''', w)"
proof -
  have ts: "TrimSpace w = w"
    using assms by (intro TrimSpace_ascii_edges) (simp_all add: isIdChar_asciiNonSpace)
  have tw: "takeWhile isIdChar w = w" "dropWhile isIdChar w = []"
    using assms(2) by simp_all
  show ?thesis using assms(1) by (simp add: parseWord_takeWhile ts tw)
qed

section \<open>Properties of the registry\<close>


lemma addType_miss:
  "typeMap st (String x t) = None \<Longrightarrow>
   addType x st t = (t, st\<lparr>typeMap := (typeMap st)(String x t \<mapsto> t)\<rparr>)"
  by (simp add: addType_def)


lemma addType_mono: "addType x st t = (h, st') \<Longrightarrow> typeMap st \<subseteq>\<^sub>m typeMap st'"
  by (cases "typeMap st (String x t)") (auto simp: addType_def map_le_def)

lemma addType_nextAddr: "addType x st t = (h, st') \<Longrightarrow> nextAddr st' = nextAddr st"
  by (cases "typeMap st (String x t)") (auto simp: addType_def)

lemma registered_addType:
  assumes "registered x st" "addType x st t = (h, st')"
  shows "registered x st'"
proof (cases "typeMap st (String x t)")
  case (Some old)
  with assms show ?thesis by (simp add: addType_def)
next
  case None
  then have st': "typeMap st' = (typeMap st)(String x t \<mapsto> t)"
    using assms(2) by (auto simp: addType_def)
  show ?thesis
    unfolding registered_def
  proof (intro allI impI)
    fix k u
    assume ku: "typeMap st' k = Some u"
    show "typeMap st' (String x u) = Some u"
    proof (cases "k = String x t")
      case True
      with ku st' show ?thesis by simp
    next
      case False
      with ku st' have "typeMap st k = Some u" by simp
      then have old: "typeMap st (String x u) = Some u"
        using assms(1) by (simp add: registered_def)
      with None have "String x u \<noteq> String x t" by auto
      with old st' show ?thesis by simp
    qed
  qed
qed

lemma registered_nextAddr:
  "registered x (st\<lparr>nextAddr := a\<rparr>) = registered x st"
  by (simp add: registered_def)

lemma registered_LookupVectorType:
  "registered x st \<Longrightarrow> LookupVectorType x st inner = (h, st') \<Longrightarrow> registered x st'"
  unfolding LookupVectorType_def
  using registered_addType registered_nextAddr by blast

lemma LookupTypeRecord_hit:
  "typeMap st (recordString x cols) = Some t \<Longrightarrow>
   LookupTypeRecord x st cols = (asTypeRecord t, st)"
  by (simp add: LookupTypeRecord_def Let_def)

lemma LookupTypeRecord_miss:
  "typeMap st (recordString x cols) = None \<Longrightarrow>
   LookupTypeRecord x st cols =
     (Inr (TypeRecord (nextAddr st) cols (recordString x cols)),
      st\<lparr>typeMap := (typeMap st)(recordString x cols \<mapsto>
            TypeRecord (nextAddr st) cols (recordString x cols)),
         nextAddr := nextAddr st + 1\<rparr>)"
  by (simp add: LookupTypeRecord_def Let_def)



lemma LookupTypeRecord_mono:
  "LookupTypeRecord x st cols = (res, st') \<Longrightarrow> typeMap st \<subseteq>\<^sub>m typeMap st'"
  by (cases "typeMap st (recordString x cols)")
     (auto simp: LookupTypeRecord_hit LookupTypeRecord_miss map_le_def)

lemma registered_LookupTypeRecord:
  assumes "registered x st" "LookupTypeRecord x st cols = (res, st')"
    and key: "String x (TypeRecord (nextAddr st) cols (recordString x cols)) = recordString x cols"
  shows "registered x st'"
proof (cases "typeMap st (recordString x cols)")
  case (Some t)
  with assms show ?thesis by (simp add: LookupTypeRecord_hit)
next
  case None
  let ?r = "TypeRecord (nextAddr st) cols (recordString x cols)"
  have "addType x st ?r = (?r, st\<lparr>typeMap := (typeMap st)(recordString x cols \<mapsto> ?r)\<rparr>)"
    using None key by (simp add: addType_def Let_def)
  then have "registered x (st\<lparr>typeMap := (typeMap st)(recordString x cols \<mapsto> ?r)\<rparr>)"
    using assms(1) registered_addType by blast
  then have "registered x (st\<lparr>typeMap := (typeMap st)(recordString x cols \<mapsto> ?r),
      nextAddr := nextAddr st + 1\<rparr>)"
    by (simp add: registered_def)
  with None assms(2) show ?thesis by (auto simp: LookupTypeRecord_miss)
qed

lemma typeMap0_names:
  "typeMap0 k = Some t \<Longrightarrow>
   k \<in> set [''bool'', ''count'', ''int'', ''double'', ''time'', ''interval'', ''string'',
            ''pattern'', ''regexp'', ''port'', ''addr'', ''subnet'', ''enum'', ''unset'']"
  by (simp add: typeMap0_def split: if_splits)

lemma registered_registry0: "String x = String0 \<Longrightarrow> registered x registry0"
  unfolding registered_def registry0_def
proof (intro allI impI)
  fix k t
  assume x: "String x = String0" and "typeMap \<lparr>typeMap = typeMap0, nextAddr = 0\<rparr> k = Some t"
  then have kt: "typeMap0 k = Some t" by simp
  from typeMap0_names [OF kt] kt have "typeMap0 (String0 t) = Some t"
    by (auto simp: typeMap0_def)
  with x show "typeMap \<lparr>typeMap = typeMap0, nextAddr = 0\<rparr> (String x t) = Some t"
    by simp
qed

lemma String_grammar [simp]: "String (grammar d) = String0"
  by (cases d) simp_all

lemma recordString_grammar [simp]: "recordString (grammar d) = recordString0"
  by (cases d) simp_all

lemma TrimSpace_typeMap0_names:
  "k \<in> set [''bool'', ''count'', ''int'', ''double'', ''time'', ''interval'', ''string'',
            ''pattern'', ''regexp'', ''port'', ''addr'', ''subnet'', ''enum'', ''unset''] \<Longrightarrow>
   TrimSpace k = k"
  by (auto intro!: TrimSpace_ascii_edges simp: asciiNonSpace_def)

lemma TrimSpace_String0: "TrimSpace (String0 t) = String0 t"
  by (cases t) (auto intro!: TrimSpace_ascii_edges simp: asciiNonSpace_def)

subsection \<open>The invariant holds in every reachable registry\<close>

lemma registered_String: "String x = String y \<Longrightarrow> registered x st = registered y st"
  by (simp add: registered_def)

lemma registered_internBody:
  assumes "registered x st" "internBody x (res, st) = (res', st')"
  shows "registered x st'"
proof (cases res)
  case (Inl err)
  with assms show ?thesis by (simp add: internBody_def)
next
  case (Inr p)
  obtain rest t where p: "p = (rest, t)" by (cases p)
  obtain h st2 where a: "addType x st t = (h, st2)" by (cases "addType x st t")
  with assms(2) Inr p have "st' = st2" by (simp add: internBody_def)
  with registered_addType [OF assms(1) a] show ?thesis by simp
qed

lemma registered_parseType:
  assumes ps: "preserving x (parseSetTypeBody x)" "preserving x (parseVectorTypeBody x)"
      "preserving x (parseRecordTypeBody x)"
    and r: "registered x st" and p: "parseType x st inp = (res, st')"
  shows "registered x st'"
proof -
  have body: "\<And>b rest. preserving x b \<Longrightarrow> internBody x (b st rest) = (res, st') \<Longrightarrow>
      registered x st'"
  proof -
    fix b :: "registry \<Rightarrow> string \<Rightarrow> Type parse_result" and rest
    assume b: "preserving x b" "internBody x (b st rest) = (res, st')"
    obtain r1 st1 where b1: "b st rest = (r1, st1)" by (cases "b st rest")
    with b(1) r have "registered x st1" unfolding preserving_def by blast
    with b(2) b1 show "registered x st'" using registered_internBody by simp
  qed
  show ?thesis
  proof (cases "typeMap st (TrimSpace inp)")
    case (Some t)
    with p r show ?thesis by (simp add: parseType_def)
  next
    case None
    obtain rest word where w: "parseWord inp = (rest, word)" by (cases "parseWord inp")
    show ?thesis
    proof (cases "word = [] \<or> typeMap st word \<noteq> None")
      case True
      with p r None w show ?thesis by (auto simp: parseType_def split: if_splits)
    next
      case False
      then have f: "word \<noteq> []" "typeMap st word = None" by auto
      consider "word = ''set''" | "word = ''vector''" | "word = ''record''"
        | "word \<noteq> ''set''" "word \<noteq> ''vector''" "word \<noteq> ''record''"
        by blast
      then show ?thesis
      proof cases
        case 1
        with p None w f have "internBody x (parseSetTypeBody x st rest) = (res, st')"
          by (simp add: parseType_def)
        with ps(1) show ?thesis by (rule body)
      next
        case 2
        with p None w f have "internBody x (parseVectorTypeBody x st rest) = (res, st')"
          by (simp add: parseType_def)
        with ps(2) show ?thesis by (rule body)
      next
        case 3
        with p None w f have "internBody x (parseRecordTypeBody x st rest) = (res, st')"
          by (simp add: parseType_def)
        with ps(3) show ?thesis by (rule body)
      next
        case 4
        with p None w f r show ?thesis by (simp add: parseType_def)
      qed
    qed
  qed
qed

lemma preserving_parseInnerBody:
  assumes "preserving x pt"
  shows "preserving x (parseInnerBody pt mk)"
  unfolding preserving_def
proof (intro allI impI)
  fix st inp res st'
  assume r: "registered x st" and p: "parseInnerBody pt mk st inp = (res, st')"
  show "registered x st'"
  proof (cases inp)
    case Nil
    with p r show ?thesis by (simp add: parseInnerBody_def)
  next
    case (Cons c rest)
    show ?thesis
    proof (cases "c = CHR ''[''")
      case False
      with p r Cons show ?thesis by (simp add: parseInnerBody_def)
    next
      case True
      obtain r1 st1 where p1: "pt st rest = (r1, st1)" by (cases "pt st rest")
      with assms r have r1: "registered x st1" unfolding preserving_def by blast
      have "st' = st1 \<or> st' = st1\<lparr>nextAddr := nextAddr st1 + 1\<rparr>"
        using p Cons True p1
        by (auto simp: parseInnerBody_def split: sum.splits list.splits if_splits)
      with r1 show ?thesis by (auto simp: registered_nextAddr)
    qed
  qed
qed

lemma registered_parseColumns:
  assumes "preserving x pt"
  shows "registered x st \<Longrightarrow> parseColumns pt n st inp cols = (res, st') \<Longrightarrow> registered x st'"
proof (induction n arbitrary: st inp cols)
  case 0
  then show ?case by simp
next
  case (Suc n)
  show ?case
  proof (cases "parseIdent inp")
    case None
    with Suc.prems show ?thesis by simp
  next
    case (Some p)
    obtain rest name where pn: "p = (rest, name)" by (cases p)
    show ?thesis
    proof (cases rest)
      case Nil
      with Suc.prems Some pn show ?thesis by simp
    next
      case (Cons c r)
      show ?thesis
      proof (cases "c = CHR '':''")
        case False
        with Suc.prems Some pn Cons show ?thesis by simp
      next
        case True
        obtain r1 st1 where p1: "pt st r = (r1, st1)" by (cases "pt st r")
        with assms Suc.prems(1) have r1: "registered x st1" unfolding preserving_def by blast
        show ?thesis
        proof (cases r1)
          case (Inl err)
          with Suc.prems(2) Some pn Cons True p1 r1 show ?thesis by simp
        next
          case (Inr q)
          obtain rest' t where q: "q = (rest', t)" by (cases q)
          show ?thesis
          proof (cases rest')
            case Nil
            with Suc.prems(2) Some pn Cons True p1 r1 Inr q show ?thesis by simp
          next
            case c2: (Cons c' r')
            show ?thesis
            proof (cases "c' = CHR '',''")
              case True
              then have "parseColumns pt n st1 r' (cols @ [Column name t]) = (res, st')"
                using Suc.prems(2) Some pn Cons \<open>c = CHR '':''\<close> p1 Inr q c2 by simp
              with Suc.IH r1 show ?thesis by blast
            next
              case False
              then have "st' = st1"
                using Suc.prems(2) Some pn Cons \<open>c = CHR '':''\<close> p1 Inr q c2
                by (auto split: if_splits)
              with r1 show ?thesis by simp
            qed
          qed
        qed
      qed
    qed
  qed
qed

lemma preserving_parseRecordBody:
  assumes "preserving x pt"
  shows "preserving x (parseRecordBody pt)"
  unfolding preserving_def
proof (intro allI impI)
  fix st inp res st'
  assume r: "registered x st" and p: "parseRecordBody pt st inp = (res, st')"
  show "registered x st'"
  proof (cases inp)
    case Nil
    with p r show ?thesis by (simp add: parseRecordBody_def)
  next
    case (Cons c rest)
    show ?thesis
    proof (cases "c = CHR ''[''")
      case False
      with p r Cons show ?thesis by (simp add: parseRecordBody_def)
    next
      case True
      define inner where "inner =
        (case rest of
           [] \<Rightarrow> (Inl ErrTypeSyntax, st)
         | c' # r' \<Rightarrow>
             if c' = CHR '']'' then (Inr (r', []), st)
             else parseColumns pt (length rest) st rest [])"
      obtain r1 st1 where i: "inner = (r1, st1)" by (cases inner)
      have r1: "registered x st1"
      proof (cases rest)
        case Nil
        with i r show ?thesis by (simp add: inner_def)
      next
        case c2: (Cons c' r')
        show ?thesis
        proof (cases "c' = CHR '']''")
          case True
          with i r c2 show ?thesis by (simp add: inner_def)
        next
          case False
          with i c2 have "parseColumns pt (length rest) st rest [] = (r1, st1)"
            by (simp add: inner_def)
          with registered_parseColumns [OF assms r] show ?thesis by blast
        qed
      qed
      have "parseRecordBody pt st inp =
          (case inner of
             (Inl err, st2) \<Rightarrow> (Inl err, st2)
           | (Inr (rest, cols), st2) \<Rightarrow>
               (Inr (rest, TypeRecord (nextAddr st2) cols (recordString0 cols)),
                st2\<lparr>nextAddr := nextAddr st2 + 1\<rparr>))"
        using Cons True by (simp add: parseRecordBody_def inner_def)
      with p i have "st' = st1 \<or> st' = st1\<lparr>nextAddr := nextAddr st1 + 1\<rparr>"
        by (auto split: sum.splits)
      with r1 show ?thesis by (auto simp: registered_nextAddr)
    qed
  qed
qed

lemma preserving_String: "String x = String y \<Longrightarrow> preserving x p = preserving y p"
  by (simp add: preserving_def registered_def)

lemma preserving_grammar: "preserving (grammar d) (parseType (grammar d))"
proof (induction d)
  case 0
  have "preserving (grammar 0) (\<lambda>st inp. (Inl ErrNesting, st) :: Type parse_result)"
    by (simp add: preserving_def)
  then show ?case
    unfolding preserving_def [of "grammar 0" "parseType (grammar 0)"]
    using registered_parseType [of "grammar 0"] by auto
next
  case (Suc d)
  have "preserving (grammar (Suc d)) (parseType (grammar d)) =
      preserving (grammar d) (parseType (grammar d))"
    by (rule preserving_String) simp
  with Suc have pd: "preserving (grammar (Suc d)) (parseType (grammar d))"
    by blast
  have "preserving (grammar (Suc d)) (parseSetTypeBody (grammar (Suc d)))"
    "preserving (grammar (Suc d)) (parseVectorTypeBody (grammar (Suc d)))"
    "preserving (grammar (Suc d)) (parseRecordTypeBody (grammar (Suc d)))"
    using pd by (simp_all add: preserving_parseInnerBody preserving_parseRecordBody)
  then show ?case
    unfolding preserving_def [of "grammar (Suc d)" "parseType (grammar (Suc d))"]
    using registered_parseType [of "grammar (Suc d)"] by blast
qed

lemma reachable_registered: "reachable (grammar d) st \<Longrightarrow> registered (grammar d) st"
proof (induction rule: reachable.induct)
  case initial
  show ?case by (rule registered_registry0) simp
next
  case (lookupType st inp res st')
  obtain r1 where "parseType (grammar d) st inp = (r1, st')"
    using lookupType(2) by (auto simp: LookupType_def split: prod.splits sum.splits)
  with preserving_grammar [of d] lookupType(3) show ?case
    unfolding preserving_def by blast
next
  case (lookupVectorType st innerType h st')
  then show ?case using registered_LookupVectorType by blast
next
  case (lookupTypeRecord st columns res st')
  then show ?case
    using registered_LookupTypeRecord [of "grammar d" st columns res st']
    by (simp add: recordString0_def)
qed

section \<open>Claims about the registry and the type parser\<close>



text \<open>
  C2. Parsing the printed form of a registered type gives the type back. In a registry
  where every stored type is also stored under its printed form, and for a printed form
  without surrounding white space, \<^verbatim>\<open>LookupType(t.String())\<close> returns the handle \<open>t\<close> itself,
  with no error and the registry unchanged. With the canonical printer and the grammar
  of the spec this holds for every type stored in any registry that \<^verbatim>\<open>LookupType\<close>,
  \<^verbatim>\<open>LookupVectorType\<close> and \<^verbatim>\<open>LookupTypeRecord\<close> reach from the initial one.
\<close>

theorem parse_print_roundtrip:
  "(registered x st \<longrightarrow> typeMap st k = Some t \<longrightarrow> TrimSpace (String x t) = String x t \<longrightarrow>
      LookupType x st (String x t) = (Inr t, st)) \<and>
   (reachable (grammar d) st \<longrightarrow> typeMap st k = Some t \<longrightarrow>
      LookupType (grammar d) st (String0 t) = (Inr t, st))"
proof -
  have main: "LookupType y s (String y u) = (Inr u, s)"
    if "registered y s" "typeMap s k = Some u" "TrimSpace (String y u) = String y u"
    for y s u
  proof -
    have "typeMap s (String y u) = Some u"
      using that(1,2) by (simp add: registered_def)
    then have "parseType y s (String y u) = (Inr ([], u), s)"
      using that(3) by (simp add: parseType_def)
    then show ?thesis by (simp add: LookupType_def)
  qed
  show ?thesis
  proof (intro conjI impI)
    assume "registered x st" "typeMap st k = Some t" "TrimSpace (String x t) = String x t"
    then show "LookupType x st (String x t) = (Inr t, st)" by (rule main)
  next
    assume "reachable (grammar d) st" "typeMap st k = Some t"
    then show "LookupType (grammar d) st (String0 t) = (Inr t, st)"
      using main [of "grammar d" st t] reachable_registered [of d st] TrimSpace_String0 [of t]
      by simp
  qed
qed

theorem parse_print_roundtrip_witness:
  "registered (grammar (Suc 0)) (snd (LookupVectorType (grammar (Suc 0)) registry0 TypeInt)) \<and>
   reachable (grammar (Suc 0)) (snd (LookupVectorType (grammar (Suc 0)) registry0 TypeInt)) \<and>
   typeMap (snd (LookupVectorType (grammar (Suc 0)) registry0 TypeInt)) ''vector[int]'' =
     Some (TypeVector 0 TypeInt) \<and>
   TrimSpace ''vector[int]'' = ''vector[int]'' \<and>
   LookupType (grammar (Suc 0)) (snd (LookupVectorType (grammar (Suc 0)) registry0 TypeInt))
     ''vector[int]'' =
     (Inr (TypeVector 0 TypeInt), snd (LookupVectorType (grammar (Suc 0)) registry0 TypeInt))"
proof -
  let ?g = "grammar (Suc 0)"
  let ?st = "snd (LookupVectorType ?g registry0 TypeInt)"
  have "LookupVectorType ?g registry0 TypeInt = (fst (LookupVectorType ?g registry0 TypeInt), ?st)"
    by simp
  with reachable.initial [of ?g] have re: "reachable ?g ?st"
    by (rule reachable.lookupVectorType)
  then have r: "registered ?g ?st" by (rule reachable_registered)
  have m: "typeMap ?st ''vector[int]'' = Some (TypeVector 0 TypeInt)"
    by (simp add: LookupVectorType_def addType_def registry0_def typeMap0_def)
  have t: "TrimSpace ''vector[int]'' = ''vector[int]''"
    using TrimSpace_String0 [of "TypeVector 0 TypeInt"] by simp
  have "LookupType ?g ?st ''vector[int]'' = (Inr (TypeVector 0 TypeInt), ?st)"
    using parse_print_roundtrip [of ?g ?st "''vector[int]''" "TypeVector 0 TypeInt" "Suc 0"] r m t
    by simp
  with r re m t show ?thesis by simp
qed

text \<open>
  C10. Trailing characters are ignored: for the input \<^verbatim>\<open>"int junk"\<close>, \<^verbatim>\<open>parseType\<close> finds the
  word \<^verbatim>\<open>int\<close> and returns its type with the rest \<^verbatim>\<open>" junk"\<close>; \<^verbatim>\<open>LookupType\<close> drops the rest and
  returns the type and no error.
\<close>

theorem trailing_junk_ignored:
  "parseType x registry0 ''int junk'' = (Inr ('' junk'', TypeInt), registry0) \<and>
   LookupType x registry0 ''int junk'' = (Inr TypeInt, registry0)"
proof -
  have t: "TrimSpace ''int junk'' = ''int junk''"
    by (intro TrimSpace_ascii_edges) (simp_all add: asciiNonSpace_def)
  have w: "parseWord ''int junk'' = ('' junk'', ''int'')"
    by (simp add: parseWord_takeWhile t isIdChar_def)
  have p: "parseType x registry0 ''int junk'' = (Inr ('' junk'', TypeInt), registry0)"
    by (simp add: parseType_def t w registry0_def typeMap0_def)
  then show ?thesis by (simp add: LookupType_def)
qed

text \<open>
  C7 (as the code has it). The word characters of the type parser are the letters, the
  digits, the underscore and the dot: the dollar sign is not one, and a digit or a dot
  may start a word. \<^verbatim>\<open>parseWord\<close> trims the input and returns its longest leading run of
  word characters with the rest, or two empty strings when the run is empty; every
  non-empty string of word characters is read whole as one word.
\<close>

theorem word_characters:
  "(isIdChar c \<longleftrightarrow>
      c \<in> set ''abcdefghijklmnopqrstuvwxyzABCDEFGHIJKLMNOPQRSTUVWXYZ0123456789_.'') \<and>
   parseWord s =
     (if takeWhile isIdChar (TrimSpace s) = [] then ('''', '''')
      else (dropWhile isIdChar (TrimSpace s), takeWhile isIdChar (TrimSpace s))) \<and>
   (w \<noteq> [] \<longrightarrow> (\<forall>c \<in> set w. isIdChar c) \<longrightarrow> parseWord w = ('''', w))"
proof (intro conjI impI)
  show "isIdChar c \<longleftrightarrow>
      c \<in> set ''abcdefghijklmnopqrstuvwxyzABCDEFGHIJKLMNOPQRSTUVWXYZ0123456789_.''"
    by (rule isIdChar_chars)
  show "parseWord s =
     (if takeWhile isIdChar (TrimSpace s) = [] then ('''', '''')
      else (dropWhile isIdChar (TrimSpace s), takeWhile isIdChar (TrimSpace s)))"
    by (rule parseWord_takeWhile)
  assume "w \<noteq> []" "\<forall>c \<in> set w. isIdChar c"
  then show "parseWord w = ('''', w)" by (rule parseWord_whole)
qed

theorem word_characters_witness:
  "''id.orig_h'' \<noteq> [] \<and> list_all isIdChar ''id.orig_h'' \<and>
   parseWord ''id.orig_h'' = ('''', ''id.orig_h'')"
proof -
  have a: "list_all isIdChar ''id.orig_h''" by (simp add: isIdChar_def)
  then have "\<forall>c \<in> set ''id.orig_h''. isIdChar c" by (simp only: list_all_iff)
  then have "parseWord ''id.orig_h'' = ('''', ''id.orig_h'')"
    using word_characters [of _ _ "''id.orig_h''"] by blast
  with a show ?thesis by simp
qed

theorem identifiers_counterexample:
  "specIdent ''$x'' \<and> parseWord ''$x'' = ('''', '''') \<and> \<not> isIdChar CHR ''$'' \<and>
   \<not> specIdent ''9a.b'' \<and> parseWord ''9a.b'' = ('''', ''9a.b'') \<and> isIdChar CHR ''.''"
proof -
  have t: "TrimSpace ''$x'' = ''$x''"
    by (intro TrimSpace_ascii_edges) (simp_all add: asciiNonSpace_def)
  have "parseWord ''$x'' = ('''', '''')"
    by (simp add: parseWord_takeWhile t isIdChar_def)
  moreover have "parseWord ''9a.b'' = ('''', ''9a.b'')"
    by (intro parseWord_whole) (simp_all add: isIdChar_def)
  ultimately show ?thesis
    by (simp add: specIdent_def isIdStart_def isIdContinue_def isIdChar_def)
qed

text \<open>
  C6 (as the code has it). The type parser knows the names of \<^verbatim>\<open>typeMap\<close>: bool, count, int,
  double, time, interval, string, pattern, regexp, port, addr, subnet, enum and unset, each
  resolving to its singleton in every registry that extends the initial one. For an
  input that is not a key, whose leading word is not a key either, it dispatches on the
  words set, vector and record to the body parser and interns the type the body parser
  built; every other word is an unknown type. So of the names of the spec, bool, string,
  enum, port and time are accepted, and byte, int16, uint16, int32, uint32, int64, uint64,
  float64, bytes, bstring, ip, net, duration, null, array and union are rejected.
\<close>

theorem type_names_accepted:
  "(typeMap0 \<subseteq>\<^sub>m typeMap st \<longrightarrow> typeMap0 name = Some t \<longrightarrow>
      LookupType x st name = (Inr t, st)) \<and>
   (typeMap st (TrimSpace inp) = None \<longrightarrow> parseWord inp = (rest, w) \<longrightarrow> typeMap st w = None \<longrightarrow>
      parseType x st inp =
        (if w = '''' then (Inl (UnknownType inp), st)
         else if w = ''set'' then internBody x (parseSetTypeBody x st rest)
         else if w = ''vector'' then internBody x (parseVectorTypeBody x st rest)
         else if w = ''record'' then internBody x (parseRecordTypeBody x st rest)
         else (Inl (UnknownType w), st))) \<and>
   internBody x (Inl err, st') = (Inl err, st') \<and>
   internBody x (Inr (rest, t'), st') =
     (Inr (rest, fst (addType x st' t')), snd (addType x st' t')) \<and>
   list_all (\<lambda>n. LookupType x registry0 n = (Inl (UnknownType n), registry0))
     [''byte'', ''int16'', ''uint16'', ''int32'', ''uint32'', ''int64'', ''uint64'', ''float64'',
      ''bytes'', ''bstring'', ''ip'', ''net'', ''duration'', ''null'']"
proof (intro conjI impI)
  assume a: "typeMap0 \<subseteq>\<^sub>m typeMap st" "typeMap0 name = Some t"
  have "TrimSpace name = name"
    using typeMap0_names [OF a(2)] by (rule TrimSpace_typeMap0_names)
  moreover have "typeMap st name = Some t"
    using a by (auto simp: map_le_def dom_def)
  ultimately show "LookupType x st name = (Inr t, st)"
    by (simp add: LookupType_def parseType_def)
next
  assume "typeMap st (TrimSpace inp) = None" "parseWord inp = (rest, w)" "typeMap st w = None"
  then show "parseType x st inp =
        (if w = '''' then (Inl (UnknownType inp), st)
         else if w = ''set'' then internBody x (parseSetTypeBody x st rest)
         else if w = ''vector'' then internBody x (parseVectorTypeBody x st rest)
         else if w = ''record'' then internBody x (parseRecordTypeBody x st rest)
         else (Inl (UnknownType w), st))"
    by (simp add: parseType_def)
next
  show "internBody x (Inl err, st') = (Inl err, st')"
    by (simp add: internBody_def)
next
  show "internBody x (Inr (rest, t'), st') =
     (Inr (rest, fst (addType x st' t')), snd (addType x st' t'))"
    by (simp add: internBody_def split: prod.splits)
next
  have u: "\<And>n. n \<noteq> [] \<Longrightarrow> \<forall>c \<in> set n. isIdChar c \<Longrightarrow> typeMap0 n = None \<Longrightarrow>
      n \<noteq> ''set'' \<Longrightarrow> n \<noteq> ''vector'' \<Longrightarrow> n \<noteq> ''record'' \<Longrightarrow>
      LookupType x registry0 n = (Inl (UnknownType n), registry0)"
  proof -
    fix n :: string
    assume n: "n \<noteq> []" "\<forall>c \<in> set n. isIdChar c" "typeMap0 n = None"
      "n \<noteq> ''set''" "n \<noteq> ''vector''" "n \<noteq> ''record''"
    have w: "parseWord n = ('''', n)" using n(1,2) by (rule parseWord_whole)
    have "TrimSpace n = n"
      using n(1,2) by (intro TrimSpace_ascii_edges) (simp_all add: isIdChar_asciiNonSpace)
    then show "LookupType x registry0 n = (Inl (UnknownType n), registry0)"
      using n by (simp add: LookupType_def parseType_def w registry0_def)
  qed
  show "list_all (\<lambda>n. LookupType x registry0 n = (Inl (UnknownType n), registry0))
     [''byte'', ''int16'', ''uint16'', ''int32'', ''uint32'', ''int64'', ''uint64'', ''float64'',
      ''bytes'', ''bstring'', ''ip'', ''net'', ''duration'', ''null'']"
    by (simp add: u isIdChar_def typeMap0_def)
qed

theorem type_names_accepted_witness:
  "LookupType (grammar (Suc 0)) (snd (LookupVectorType (grammar (Suc 0)) registry0 TypeInt))
     ''double'' =
     (Inr TypeDouble, snd (LookupVectorType (grammar (Suc 0)) registry0 TypeInt)) \<and>
   parseType (grammar (Suc 0)) registry0 ''set[int]'' =
     internBody (grammar (Suc 0)) (parseSetTypeBody (grammar (Suc 0)) registry0 ''[int]'') \<and>
   parseType (grammar (Suc 0)) registry0 ''set[int]'' =
     (Inr ('''', TypeSet 0 TypeInt),
      \<lparr>typeMap = typeMap0(''set[int]'' \<mapsto> TypeSet 0 TypeInt), nextAddr = 1\<rparr>)"
proof -
  let ?g = "grammar (Suc 0)"
  let ?st = "snd (LookupVectorType ?g registry0 TypeInt)"
  have m: "typeMap0 \<subseteq>\<^sub>m typeMap ?st"
    using addType_mono [of ?g "registry0\<lparr>nextAddr := nextAddr registry0 + 1\<rparr>"
        "TypeVector (nextAddr registry0) TypeInt"]
    by (simp add: LookupVectorType_def prod_eq_iff registry0_def)
  have a: "LookupType ?g ?st ''double'' = (Inr TypeDouble, ?st)"
    using type_names_accepted [of ?st "''double''" TypeDouble ?g] m
    by (simp add: typeMap0_def)
  have t: "TrimSpace ''set[int]'' = ''set[int]''"
    by (intro TrimSpace_ascii_edges) (simp_all add: asciiNonSpace_def)
  have w: "parseWord ''set[int]'' = (''[int]'', ''set'')"
    by (simp add: parseWord_takeWhile t isIdChar_def)
  have b: "parseType ?g registry0 ''set[int]'' =
      internBody ?g (parseSetTypeBody ?g registry0 ''[int]'')"
    using type_names_accepted [of registry0 _ _ ?g "''set[int]''" "''[int]''" "''set''"] t w
    by (simp add: registry0_def typeMap0_def)
  have t': "TrimSpace ''int]'' = ''int]''"
    by (intro TrimSpace_ascii_edges) (simp_all add: asciiNonSpace_def)
  have w': "parseWord ''int]'' = ('']'', ''int'')"
    by (simp add: parseWord_takeWhile t' isIdChar_def)
  have "parseType (grammar 0) registry0 ''int]'' = (Inr ('']'', TypeInt), registry0)"
    by (simp add: parseType_def t' w' registry0_def typeMap0_def)
  then have "internBody ?g (parseSetTypeBody ?g registry0 ''[int]'') =
     (Inr ('''', TypeSet 0 TypeInt),
      \<lparr>typeMap = typeMap0(''set[int]'' \<mapsto> TypeSet 0 TypeInt), nextAddr = 1\<rparr>)"
    by (simp add: internBody_def parseInnerBody_def addType_def registry0_def typeMap0_def)
  with a b show ?thesis by simp
qed

theorem type_names_counterexample:
  "LookupType (grammar (Suc 0)) registry0 ''float64'' =
     (Inl (UnknownType ''float64''), registry0) \<and>
   LookupType (grammar (Suc 0)) registry0 ''int16'' = (Inl (UnknownType ''int16''), registry0) \<and>
   LookupType (grammar (Suc 0)) registry0 ''array[int]'' =
     (Inl (UnknownType ''array''), registry0) \<and>
   LookupType (grammar (Suc 0)) registry0 ''union[int,string]'' =
     (Inl (UnknownType ''union''), registry0)"
proof -
  have t: "TrimSpace ''float64'' = ''float64''" "TrimSpace ''int16'' = ''int16''"
    "TrimSpace ''array[int]'' = ''array[int]''"
    "TrimSpace ''union[int,string]'' = ''union[int,string]''"
    by (intro TrimSpace_ascii_edges; simp add: asciiNonSpace_def)+
  have w: "parseWord ''float64'' = ('''', ''float64'')" "parseWord ''int16'' = ('''', ''int16'')"
    "parseWord ''array[int]'' = (''[int]'', ''array'')"
    "parseWord ''union[int,string]'' = (''[int,string]'', ''union'')"
    by (simp_all add: parseWord_takeWhile t isIdChar_def)
  show ?thesis
    by (simp add: LookupType_def parseType_def t w registry0_def typeMap0_def)
qed

section \<open>Properties of the iterator loops\<close>

lemma elements_Done: "Done it \<Longrightarrow> elements it = Inr []"
  by (subst elements.simps) simp

lemma elements_Next_err: "\<not> Done it \<Longrightarrow> Next it = Inl err \<Longrightarrow> elements it = Inl err"
  by (subst elements.simps) simp

lemma elements_Next:
  "\<not> Done it \<Longrightarrow> Next it = Inr (zv, c, it') \<Longrightarrow>
   elements it = (case elements it' of Inl err \<Rightarrow> Inl err | Inr zvs \<Rightarrow> Inr (zv # zvs))"
  by (subst elements.simps) simp

lemma Next_errors: "Next it = Inl err \<Longrightarrow> err = ErrBadTag \<or> err = ErrTruncated"
  by (auto simp: Next_def Let_def split: option.splits if_splits)

lemma elements_errors: "elements it = Inl err \<Longrightarrow> err = ErrBadTag \<or> err = ErrTruncated"
proof (induction it rule: elements.induct)
  case (1 it)
  show ?case
  proof (cases "Done it")
    case True
    with 1(2) show ?thesis by (simp add: elements_Done)
  next
    case nd: False
    show ?thesis
    proof (cases "Next it")
      case (Inl e)
      with nd 1(2) have "e = err" by (simp add: elements_Next_err)
      with Inl show ?thesis by (auto dest: Next_errors)
    next
      case (Inr p)
      then obtain zv c it' where p: "Next it = Inr (zv, c, it')" by (cases p) auto
      with nd 1(2) have "elements it' = Inl err"
        by (auto simp: elements_Next split: sum.splits)
      with 1(1) nd p show ?thesis by simp
    qed
  qed
qed

lemma ContainerLength_loop_elements:
  "ContainerLength_loop it n =
     (case elements it of Inl err \<Rightarrow> Inl err | Inr zvs \<Rightarrow> Inr (n + int (length zvs)))"
proof (induction it n rule: ContainerLength_loop.induct)
  case (1 it n)
  show ?case
  proof (cases "Done it")
    case True
    then show ?thesis
      by (subst ContainerLength_loop.simps) (simp add: elements_Done)
  next
    case nd: False
    show ?thesis
    proof (cases "Next it")
      case (Inl e)
      with nd show ?thesis
        by (subst ContainerLength_loop.simps) (simp add: elements_Next_err)
    next
      case (Inr p)
      then obtain zv c it' where p: "Next it = Inr (zv, c, it')" by (cases p) auto
      have "ContainerLength_loop it n = ContainerLength_loop it' (n + 1)"
        using nd p by (subst ContainerLength_loop.simps) simp
      also have "\<dots> =
          (case elements it' of Inl err \<Rightarrow> Inl err | Inr zvs \<Rightarrow> Inr (n + 1 + int (length zvs)))"
        using 1 nd p by simp
      finally show ?thesis
        using nd p by (simp add: elements_Next split: sum.splits)
    qed
  qed
qed

lemma Elements_loop_elements:
  "Elements_loop T it els =
     (case elements it of
        Inl err \<Rightarrow> Inl err
      | Inr zvs \<Rightarrow> Inr (els @ map (\<lambda>zv. \<lparr>Type = Some T, Body = zv\<rparr>) zvs))"
proof (induction T it els rule: Elements_loop.induct)
  case (1 T it els)
  show ?case
  proof (cases "Done it")
    case True
    then show ?thesis
      by (subst Elements_loop.simps) (simp add: elements_Done)
  next
    case nd: False
    show ?thesis
    proof (cases "Next it")
      case (Inl e)
      with nd show ?thesis
        by (subst Elements_loop.simps) (simp add: elements_Next_err)
    next
      case (Inr p)
      then obtain zv c it' where p: "Next it = Inr (zv, c, it')" by (cases p) auto
      have "Elements_loop T it els =
          Elements_loop T it' (els @ [\<lparr>Type = Some T, Body = zv\<rparr>])"
        using nd p by (subst Elements_loop.simps) simp
      also have "\<dots> =
          (case elements it' of
             Inl err \<Rightarrow> Inl err
           | Inr zvs \<Rightarrow> Inr ((els @ [\<lparr>Type = Some T, Body = zv\<rparr>]) @
                 map (\<lambda>zv. \<lparr>Type = Some T, Body = zv\<rparr>) zvs))"
        using 1 nd p by simp
      finally show ?thesis
        using nd p by (simp add: elements_Next split: sum.splits)
    qed
  qed
qed

lemma VectorIndex_loop_elements:
  "elements it = Inr zvs \<Longrightarrow> i \<le> idx \<Longrightarrow>
   VectorIndex_loop T idx i it =
     (if nat (idx - i) < length zvs then Inr \<lparr>Type = Some T, Body = zvs ! nat (idx - i)\<rparr>
      else Inl ErrIndex)"
proof (induction T idx i it arbitrary: zvs rule: VectorIndex_loop.induct)
  case (1 T idx i it)
  show ?case
  proof (cases "Done it")
    case True
    with 1(2) show ?thesis
      by (subst VectorIndex_loop.simps) (simp add: elements_Done)
  next
    case nd: False
    show ?thesis
    proof (cases "Next it")
      case (Inl e)
      with nd 1(2) show ?thesis by (simp add: elements_Next_err)
    next
      case (Inr p)
      then obtain zv c it' where p: "Next it = Inr (zv, c, it')" by (cases p) auto
      with nd 1(2) obtain zvs' where z: "elements it' = Inr zvs'" "zvs = zv # zvs'"
        by (auto simp: elements_Next split: sum.splits)
      show ?thesis
      proof (cases "i = idx")
        case True
        with nd p z show ?thesis
          by (subst VectorIndex_loop.simps) simp
      next
        case False
        with 1(3) have lt: "i + 1 \<le> idx" by simp
        have "VectorIndex_loop T idx i it = VectorIndex_loop T idx (i + 1) it'"
          using nd p False by (subst VectorIndex_loop.simps) simp
        also have "\<dots> =
            (if nat (idx - (i + 1)) < length zvs'
             then Inr \<lparr>Type = Some T, Body = zvs' ! nat (idx - (i + 1))\<rparr>
             else Inl ErrIndex)"
          using "1.IH" [OF nd p refl refl False z(1) lt] by simp
        also have "\<dots> =
            (if nat (idx - i) < length zvs then Inr \<lparr>Type = Some T, Body = zvs ! nat (idx - i)\<rparr>
             else Inl ErrIndex)"
        proof -
          have "nat (idx - i) = Suc (nat (idx - (i + 1)))" using lt by simp
          then show ?thesis using z(2) by simp
        qed
        finally show ?thesis .
      qed
    qed
  qed
qed

lemma fieldRead_steps_elements:
  "elements it = Inr zvs \<Longrightarrow>
   fieldRead_steps (Suc n) it v = (if n < length zvs then Some (zvs ! n) else None)"
proof (induction n arbitrary: it v zvs)
  case 0
  show ?case
  proof (cases "Done it")
    case True
    with 0 show ?thesis by (simp add: elements_Done)
  next
    case nd: False
    show ?thesis
    proof (cases "Next it")
      case (Inl e)
      with nd 0 show ?thesis by (simp add: elements_Next_err)
    next
      case (Inr p)
      then obtain zv c it' where p: "Next it = Inr (zv, c, it')" by (cases p) auto
      with nd 0 show ?thesis by (auto simp: elements_Next split: sum.splits)
    qed
  qed
next
  case (Suc n)
  show ?case
  proof (cases "Done it")
    case True
    with Suc(2) show ?thesis by (simp add: elements_Done)
  next
    case nd: False
    show ?thesis
    proof (cases "Next it")
      case (Inl e)
      with nd Suc(2) show ?thesis by (simp add: elements_Next_err)
    next
      case (Inr p)
      then obtain zv c it' where p: "Next it = Inr (zv, c, it')" by (cases p) auto
      with nd Suc(2) obtain zvs' where z: "elements it' = Inr zvs'" "zvs = zv # zvs'"
        by (auto simp: elements_Next split: sum.splits)
      have "fieldRead_steps (Suc (Suc n)) it v = fieldRead_steps (Suc n) it' zv"
        using nd p by simp
      also have "\<dots> = (if n < length zvs' then Some (zvs' ! n) else None)"
        using Suc(1) [OF z(1)] .
      finally show ?thesis using z(2) by simp
    qed
  qed
qed

lemma fieldRead_steps_nil: "fieldRead_steps (Suc n) [] v = None"
  by (simp add: Done_def)

lemma fieldRead_columns_absent:
  "field \<notin> Name ` set cols \<Longrightarrow> fieldRead_columns field e n cols = emptyValue"
  by (induction cols arbitrary: n) auto

lemma fieldRead_columns_first:
  "fieldRead_columns field e m cols =
     (let n = length (takeWhile (\<lambda>c. Name c \<noteq> field) cols) in
      if n < length cols then
        (case fieldRead_steps (m + n + 1) (Iter e) None of
           None \<Rightarrow> emptyValue
         | Some v \<Rightarrow> \<lparr>Type = Some (colType (cols ! n)), Body = v\<rparr>)
      else emptyValue)"
  by (induction cols arbitrary: m) (auto simp: Let_def simp del: fieldRead_steps.simps cong: option.case_cong)

lemma apply_op_empty: "apply_op op emptyValue = emptyValue"
  by (cases op)
     (simp_all add: arrayIndex_apply_def VectorIndex_def fieldRead_apply_def emptyValue_def)

lemma apply_ops_empty: "apply_ops ops emptyValue = emptyValue"
  by (cases ops) (simp_all add: apply_op_empty Let_def, simp add: emptyValue_def)

section \<open>Claims about container values and the field-path evaluator\<close>

text \<open>
  C8. \<^verbatim>\<open>ContainerLength\<close> of a set or vector with a body returns the number of elements that
  iterating the body yields, as \<^verbatim>\<open>Elements\<close> collects them (and the error of the iteration
  when a step fails); of a set or vector with a nil body it returns \<^verbatim>\<open>ErrLenUnset\<close>; and
  of a record, which \<^verbatim>\<open>IsContainerType\<close> reports as a container, it returns
  \<^verbatim>\<open>ErrNotContainer\<close>.
\<close>

theorem container_length:
  "(Type e = Some (TypeSet a t) \<or> Type e = Some (TypeVector a t) \<longrightarrow> Body e \<noteq> None \<longrightarrow>
      ContainerLength e =
        (case Elements e of Inl err \<Rightarrow> Inl err | Inr els \<Rightarrow> Inr (int (length els)))) \<and>
   (Type e = Some (TypeSet a t) \<or> Type e = Some (TypeVector a t) \<longrightarrow> Body e = None \<longrightarrow>
      ContainerLength e = Inl ErrLenUnset) \<and>
   (Type e = Some (TypeRecord a cols key) \<longrightarrow>
      IsContainerType (Type e) \<and> ContainerLength e = Inl ErrNotContainer)"
proof (intro conjI impI)
  assume ty: "Type e = Some (TypeSet a t) \<or> Type e = Some (TypeVector a t)"
    and "Body e \<noteq> None"
  then have c: "ContainerLength e = ContainerLength_loop (Iter e) 0"
    by (auto simp: ContainerLength_def)
  from ty have "Elements e = Elements_loop t (Iter e) []"
    by (auto simp: Elements_def InnerType_def)
  then show "ContainerLength e =
      (case Elements e of Inl err \<Rightarrow> Inl err | Inr els \<Rightarrow> Inr (int (length els)))"
    by (simp add: c ContainerLength_loop_elements Elements_loop_elements split: sum.splits)
next
  assume "Type e = Some (TypeSet a t) \<or> Type e = Some (TypeVector a t)" "Body e = None"
  then show "ContainerLength e = Inl ErrLenUnset"
    by (auto simp: ContainerLength_def)
next
  assume r: "Type e = Some (TypeRecord a cols key)"
  then show "IsContainerType (Type e)" by (simp add: IsContainerType_def)
  from r show "ContainerLength e = Inl ErrNotContainer" by (simp add: ContainerLength_def)
qed

theorem container_length_witness:
  "Elements \<lparr>Type = Some (TypeSet 0 TypeString), Body = Some [0x04, 0x61, 0x02]\<rparr> =
     Inr [\<lparr>Type = Some TypeString, Body = Some [0x61]\<rparr>, \<lparr>Type = Some TypeString, Body = Some []\<rparr>] \<and>
   ContainerLength \<lparr>Type = Some (TypeSet 0 TypeString), Body = Some [0x04, 0x61, 0x02]\<rparr> = Inr 2 \<and>
   ContainerLength \<lparr>Type = Some (TypeVector 0 TypeString), Body = Some []\<rparr> = Inr 0 \<and>
   ContainerLength \<lparr>Type = Some (TypeVector 0 TypeString), Body = None\<rparr> = Inl ErrLenUnset \<and>
   IsContainerType (Some LL) \<and>
   ContainerLength \<lparr>Type = Some LL, Body = Some [0x04, 0x4E, 0x01]\<rparr> = Inl ErrNotContainer"
proof -
  let ?s = "\<lparr>Type = Some (TypeSet 0 TypeString), Body = Some [0x04, 0x61, 0x02]\<rparr>"
  have n1: "Next [0x04, 0x61, 0x02] = Inr (Some [0x61], False, [0x02])"
    by (simp add: Next_def uvarint_def Let_def)
  have n2: "Next [0x02] = Inr (Some [], False, [])"
    by (simp add: Next_def uvarint_def Let_def)
  have el: "elements [0x04, 0x61, 0x02] = Inr [Some [0x61], Some []]"
    by (simp add: elements_Next [OF _ n1] elements_Next [OF _ n2] elements_Done Done_def)
  have e: "Elements ?s =
      Inr [\<lparr>Type = Some TypeString, Body = Some [0x61]\<rparr>, \<lparr>Type = Some TypeString, Body = Some []\<rparr>]"
    by (simp add: Elements_def InnerType_def Iter_def Elements_loop_elements el)
  have a: "ContainerLength ?s = Inr 2"
    using container_length [of ?s 0 TypeString] e by simp
  let ?v = "\<lparr>Type = Some (TypeVector 0 TypeString), Body = Some []\<rparr>"
  have "Elements ?v = Inr []"
    by (simp add: Elements_def InnerType_def Iter_def Elements_loop_elements elements_Done Done_def)
  then have b: "ContainerLength ?v = Inr 0"
    using container_length [of ?v 0 TypeString] by simp
  have c: "ContainerLength \<lparr>Type = Some (TypeVector 0 TypeString), Body = None\<rparr> = Inl ErrLenUnset"
    using container_length [of "\<lparr>Type = Some (TypeVector 0 TypeString), Body = None\<rparr>" 0 TypeString]
    by simp
  have d: "IsContainerType (Some LL) \<and>
      ContainerLength \<lparr>Type = Some LL, Body = Some [0x04, 0x4E, 0x01]\<rparr> = Inl ErrNotContainer"
    using container_length [of "\<lparr>Type = Some LL, Body = Some [0x04, 0x4E, 0x01]\<rparr>" 0 _
        "[Column ''compass'' TypeString, Column ''degree'' TypeDouble]"
        "recordString0 [Column ''compass'' TypeString, Column ''degree'' TypeDouble]"]
    by (simp add: LL_def)
  from e a b c d show ?thesis by simp
qed

text \<open>
  C9. A field read is total on short record bodies: when the body of a record value
  holds fewer elements than the position of the column read requires (the column is the
  first one of that name, at position \<open>n\<close>, and the body has at most \<open>n\<close> elements), the
  read returns the empty value, nil type and nil body; and on every record value, whatever
  its body, the read returns the empty value or a value of the column's type.
\<close>

theorem short_record_body:
  "(Type e = Some (TypeRecord a cols key) \<longrightarrow> elements (Iter e) = Inr zvs \<longrightarrow>
      n = length (takeWhile (\<lambda>c. Name c \<noteq> field) cols) \<longrightarrow> n < length cols \<longrightarrow>
      length zvs \<le> n \<longrightarrow>
      fieldRead_apply field e = emptyValue \<and> Type emptyValue = None \<and> Body emptyValue = None) \<and>
   (Type e = Some (TypeRecord a cols key) \<longrightarrow>
      n = length (takeWhile (\<lambda>c. Name c \<noteq> field) cols) \<longrightarrow>
      fieldRead_apply field e = emptyValue \<or>
      (\<exists>v. fieldRead_apply field e = \<lparr>Type = Some (colType (cols ! n)), Body = v\<rparr>))"
proof (intro conjI impI)
  assume a: "Type e = Some (TypeRecord a cols key)" "elements (Iter e) = Inr zvs"
    "n = length (takeWhile (\<lambda>c. Name c \<noteq> field) cols)" "n < length cols" "length zvs \<le> n"
  have "fieldRead_steps (Suc n) (Iter e) None = None"
    using fieldRead_steps_elements [OF a(2), of n None] a(5) by simp
  then show "fieldRead_apply field e = emptyValue"
    using a(1,3,4) by (simp add: fieldRead_apply_def fieldRead_columns_first Let_def)
  show "Type emptyValue = None" "Body emptyValue = None" by (simp_all add: emptyValue_def)
next
  assume a: "Type e = Some (TypeRecord a cols key)"
    "n = length (takeWhile (\<lambda>c. Name c \<noteq> field) cols)"
  show "fieldRead_apply field e = emptyValue \<or>
      (\<exists>v. fieldRead_apply field e = \<lparr>Type = Some (colType (cols ! n)), Body = v\<rparr>)"
    using a
    by (simp add: fieldRead_apply_def fieldRead_columns_first Let_def
        del: fieldRead_steps.simps split: option.splits)
qed

theorem short_record_body_witness:
  "elements [0x04, 0x31] = Inr [Some [0x31]] \<and>
   fieldRead_apply ''b''
     \<lparr>Type = Some (TypeRecord 0 [Column ''a'' TypeString, Column ''b'' TypeString] ''record[a:string,b:string]''),
      Body = Some [0x04, 0x31]\<rparr> = emptyValue \<and>
   fieldRead_apply ''a''
     \<lparr>Type = Some (TypeRecord 0 [Column ''a'' TypeString, Column ''b'' TypeString] ''record[a:string,b:string]''),
      Body = Some [0x04, 0x31]\<rparr> = \<lparr>Type = Some TypeString, Body = Some [0x31]\<rparr>"
proof -
  let ?cols = "[Column ''a'' TypeString, Column ''b'' TypeString]"
  let ?e = "\<lparr>Type = Some (TypeRecord 0 ?cols ''record[a:string,b:string]''), Body = Some [0x04, 0x31]\<rparr>"
  have n1: "Next [0x04, 0x31] = Inr (Some [0x31], False, [])"
    by (simp add: Next_def uvarint_def Let_def)
  have el: "elements [0x04, 0x31] = Inr [Some [0x31]]"
    by (simp add: elements_Next [OF _ n1] elements_Done Done_def)
  have "fieldRead_apply ''b'' ?e = emptyValue"
    using short_record_body [of ?e 0 ?cols "''record[a:string,b:string]''" "[Some [0x31]]" 1 "''b''"] el
    by (simp add: Iter_def)
  moreover have "fieldRead_apply ''a'' ?e = \<lparr>Type = Some TypeString, Body = Some [0x31]\<rparr>"
    by (simp add: fieldRead_apply_def Iter_def Done_def n1)
  ultimately show ?thesis using el by simp
qed

text \<open>
  C4 (as the code has it). Only a vector can be indexed. On a value of vector type, a
  negative index, or an index at or past the number of elements of a body that iterates
  without error, yields the unset value of the vector's element type; an index within the
  body yields that element under the element type. On a value of any other type, a set
  included, every index yields the empty value.
\<close>

theorem array_index:
  "(Type e = Some (TypeVector a T) \<longrightarrow> idx < 0 \<longrightarrow>
      arrayIndex_apply idx e = \<lparr>Type = Some T, Body = None\<rparr>) \<and>
   (Type e = Some (TypeVector a T) \<longrightarrow> elements (Iter e) = Inr zvs \<longrightarrow> int (length zvs) \<le> idx \<longrightarrow>
      arrayIndex_apply idx e = \<lparr>Type = Some T, Body = None\<rparr>) \<and>
   (Type e = Some (TypeVector a T) \<longrightarrow> elements (Iter e) = Inr zvs \<longrightarrow> 0 \<le> idx \<longrightarrow>
      idx < int (length zvs) \<longrightarrow>
      arrayIndex_apply idx e = \<lparr>Type = Some T, Body = zvs ! nat idx\<rparr>) \<and>
   ((\<forall>a T. Type e \<noteq> Some (TypeVector a T)) \<longrightarrow> arrayIndex_apply idx e = emptyValue)"
proof (intro conjI impI)
  assume "Type e = Some (TypeVector a T)" "idx < 0"
  then show "arrayIndex_apply idx e = \<lparr>Type = Some T, Body = None\<rparr>"
    by (simp add: arrayIndex_apply_def VectorIndex_def InnerType_def)
next
  assume a: "Type e = Some (TypeVector a T)" "elements (Iter e) = Inr zvs" "int (length zvs) \<le> idx"
  then have "VectorIndex e idx = Inl ErrIndex"
    using VectorIndex_loop_elements [OF a(2), of 0 idx T]
    by (simp add: VectorIndex_def)
  with a(1) show "arrayIndex_apply idx e = \<lparr>Type = Some T, Body = None\<rparr>"
    by (simp add: arrayIndex_apply_def InnerType_def)
next
  assume a: "Type e = Some (TypeVector a T)" "elements (Iter e) = Inr zvs" "0 \<le> idx"
    "idx < int (length zvs)"
  then have "VectorIndex e idx = Inr \<lparr>Type = Some T, Body = zvs ! nat idx\<rparr>"
    using VectorIndex_loop_elements [OF a(2), of 0 idx T]
    by (simp add: VectorIndex_def)
  then show "arrayIndex_apply idx e = \<lparr>Type = Some T, Body = zvs ! nat idx\<rparr>"
    by (simp add: arrayIndex_apply_def)
next
  assume "\<forall>a T. Type e \<noteq> Some (TypeVector a T)"
  then have "VectorIndex e idx = Inl ErrNotVector"
    by (auto simp: VectorIndex_def split: option.splits Type.splits)
  then show "arrayIndex_apply idx e = emptyValue"
    by (simp add: arrayIndex_apply_def)
qed

theorem array_index_witness:
  "arrayIndex_apply (- 1) \<lparr>Type = Some (TypeVector 3 TypeInt), Body = Some [0x04, 0x07, 0x04, 0x09]\<rparr> =
     \<lparr>Type = Some TypeInt, Body = None\<rparr> \<and>
   arrayIndex_apply 2 \<lparr>Type = Some (TypeVector 3 TypeInt), Body = Some [0x04, 0x07, 0x04, 0x09]\<rparr> =
     \<lparr>Type = Some TypeInt, Body = None\<rparr> \<and>
   arrayIndex_apply 1 \<lparr>Type = Some (TypeVector 3 TypeInt), Body = Some [0x04, 0x07, 0x04, 0x09]\<rparr> =
     \<lparr>Type = Some TypeInt, Body = Some [0x09]\<rparr> \<and>
   arrayIndex_apply 0 \<lparr>Type = Some TypeString, Body = Some [0x61]\<rparr> = emptyValue"
proof -
  let ?e = "\<lparr>Type = Some (TypeVector 3 TypeInt), Body = Some [0x04, 0x07, 0x04, 0x09]\<rparr>"
  have n1: "Next [0x04, 0x07, 0x04, 0x09] = Inr (Some [0x07], False, [0x04, 0x09])"
    by (simp add: Next_def uvarint_def Let_def)
  have n2: "Next [0x04, 0x09] = Inr (Some [0x09], False, [])"
    by (simp add: Next_def uvarint_def Let_def)
  have el: "elements (Iter ?e) = Inr [Some [0x07], Some [0x09]]"
    by (simp add: Iter_def elements_Next [OF _ n1] elements_Next [OF _ n2] elements_Done Done_def)
  note th = array_index [where e = ?e and a = 3 and T = TypeInt
      and zvs = "[Some [0x07], Some [0x09]]"]
  have a: "arrayIndex_apply (- 1) ?e = \<lparr>Type = Some TypeInt, Body = None\<rparr>"
    using th [where idx = "- 1"] by simp
  have b: "arrayIndex_apply 2 ?e = \<lparr>Type = Some TypeInt, Body = None\<rparr>"
    using th [where idx = 2] el by simp
  have c: "arrayIndex_apply 1 ?e = \<lparr>Type = Some TypeInt, Body = Some [0x09]\<rparr>"
    using th [where idx = 1] el by simp
  have d: "arrayIndex_apply 0 \<lparr>Type = Some TypeString, Body = Some [0x61]\<rparr> = emptyValue"
    using array_index [where e = "\<lparr>Type = Some TypeString, Body = Some [0x61]\<rparr>" and idx = 0]
    by simp
  from a b c d show ?thesis by simp
qed

theorem array_index_counterexample:
  "arrayIndex_apply 5 \<lparr>Type = Some (TypeSet 2 TypeInt), Body = Some [0x04, 0x07]\<rparr> = emptyValue \<and>
   arrayIndex_apply 0 \<lparr>Type = Some (TypeSet 2 TypeInt), Body = Some [0x04, 0x07]\<rparr> = emptyValue \<and>
   emptyValue \<noteq> \<lparr>Type = Some TypeInt, Body = None\<rparr>"
  by (simp add: arrayIndex_apply_def VectorIndex_def emptyValue_def)

text \<open>
  C3 (as the code has it). A field read on a record value whose body is nil finds the
  iterator done at its first step and returns the empty value. For the record
  \<^verbatim>\<open>[NorthPole;[N;90;]-;]\<close> the path \<^verbatim>\<open>long\<close> returns the unset value of type \<^verbatim>\<open>LL\<close>, the
  path \<^verbatim>\<open>long.degree\<close> returns the empty value, nil type and nil body, and the path
  \<^verbatim>\<open>lat.degree\<close> returns the eight bytes of 90 under the floating-point type.
\<close>

theorem unset_record_field_read:
  "(Type e = Some (TypeRecord a cols key) \<longrightarrow> Body e = None \<longrightarrow>
      fieldRead_apply field e = emptyValue) \<and>
   evalFieldExpr (FieldRead ''long'') northPole = Inr \<lparr>Type = Some LL, Body = None\<rparr> \<and>
   evalFieldExpr long_degree northPole = Inr emptyValue \<and>
   evalFieldExpr lat_degree northPole =
     Inr \<lparr>Type = Some TypeDouble, Body = Some [0x00, 0x00, 0x00, 0x00, 0x00, 0x80, 0x56, 0x40]\<rparr>"
proof (intro conjI impI)
  assume "Type e = Some (TypeRecord a cols key)" "Body e = None"
  then show "fieldRead_apply field e = emptyValue"
    by (simp add: fieldRead_apply_def fieldRead_columns_first Let_def Iter_def Done_def)
next
  show "evalFieldExpr (FieldRead ''long'') northPole = Inr \<lparr>Type = Some LL, Body = None\<rparr>"
    by (simp add: evalFieldExpr_def CompileFieldExpr_def resolver_def LUT_def Record_Value_def
        northPole_def cityType_def Done_def Next_def uvarint_def Let_def)
next
  show "evalFieldExpr long_degree northPole = Inr emptyValue"
    by (simp add: evalFieldExpr_def CompileFieldExpr_def resolver_def LUT_def Record_Value_def
        northPole_def cityType_def long_degree_def LL_def fieldRead_apply_def Iter_def
        Done_def Next_def uvarint_def Let_def emptyValue_def)
next
  show "evalFieldExpr lat_degree northPole =
     Inr \<lparr>Type = Some TypeDouble, Body = Some [0x00, 0x00, 0x00, 0x00, 0x00, 0x80, 0x56, 0x40]\<rparr>"
    by (simp add: evalFieldExpr_def CompileFieldExpr_def resolver_def LUT_def Record_Value_def
        northPole_def cityType_def lat_degree_def LL_def fieldRead_apply_def Iter_def
        Done_def Next_def uvarint_def Let_def emptyValue_def)
qed

theorem unset_record_field_read_witness:
  "Type \<lparr>Type = Some LL, Body = None\<rparr> = Some LL \<and>
   fieldRead_apply ''degree'' \<lparr>Type = Some LL, Body = None\<rparr> = emptyValue"
  using unset_record_field_read [of "\<lparr>Type = Some LL, Body = None\<rparr>" 0
      "[Column ''compass'' TypeString, Column ''degree'' TypeDouble]"
      "recordString0 [Column ''compass'' TypeString, Column ''degree'' TypeDouble]" "''degree''"]
  by (simp add: LL_def)

theorem unset_long_degree_counterexample:
  "evalFieldExpr long_degree northPole \<noteq> Inr \<lparr>Type = Some TypeDouble, Body = None\<rparr> \<and>
   evalFieldExpr long_degree northPole = Inr \<lparr>Type = None, Body = None\<rparr>"
  by (simp add: evalFieldExpr_def CompileFieldExpr_def resolver_def LUT_def Record_Value_def
      northPole_def cityType_def long_degree_def LL_def fieldRead_apply_def Iter_def
      Done_def Next_def uvarint_def Let_def emptyValue_def)

text \<open>
  C5 (as the code has it). The evaluator returns a value and never an error: a compiled
  path is the resolver of its top field and operations, and the resolver has no error
  result. An absent top-level field, a field read on a value that is not a record, a
  field read of a name the record type does not have, and an index on a value that is
  not a vector each yield the empty value, whose type and body are nil, and every
  operation after it leaves it empty. Only an index out of the bounds of a vector keeps a
  type: it yields the unset value of the element type.
\<close>

theorem evaluator_recovers:
  "(CompileFieldExpr node = Inr f \<longrightarrow>
      (\<exists>field ops. collapse node [] = Inr (field, ops) \<and> f = resolver field ops)) \<and>
   (LUT (recType r) field = None \<longrightarrow> resolver field ops r = emptyValue) \<and>
   ((\<forall>a cols key. Type e \<noteq> Some (TypeRecord a cols key)) \<longrightarrow>
      fieldRead_apply fld e = emptyValue) \<and>
   (Type e = Some (TypeRecord a cols key) \<longrightarrow> fld \<notin> Name ` set cols \<longrightarrow>
      fieldRead_apply fld e = emptyValue) \<and>
   ((\<forall>a T. Type e \<noteq> Some (TypeVector a T)) \<longrightarrow> arrayIndex_apply idx e = emptyValue) \<and>
   (Type e = Some (TypeVector a T) \<longrightarrow> elements (Iter e) = Inr zvs \<longrightarrow>
      idx < 0 \<or> int (length zvs) \<le> idx \<longrightarrow>
      arrayIndex_apply idx e = \<lparr>Type = Some T, Body = None\<rparr>) \<and>
   apply_ops ops emptyValue = emptyValue \<and> Type emptyValue = None \<and> Body emptyValue = None"
proof (intro conjI impI)
  assume "CompileFieldExpr node = Inr f"
  then show "\<exists>field ops. collapse node [] = Inr (field, ops) \<and> f = resolver field ops"
    by (auto simp: CompileFieldExpr_def split: sum.splits)
next
  assume "LUT (recType r) field = None"
  then show "resolver field ops r = emptyValue" by (simp add: resolver_def)
next
  assume "\<forall>a cols key. Type e \<noteq> Some (TypeRecord a cols key)"
  then show "fieldRead_apply fld e = emptyValue"
    by (auto simp: fieldRead_apply_def split: option.splits Type.splits)
next
  assume "Type e = Some (TypeRecord a cols key)" "fld \<notin> Name ` set cols"
  then show "fieldRead_apply fld e = emptyValue"
    by (simp add: fieldRead_apply_def fieldRead_columns_absent)
next
  assume "\<forall>a T. Type e \<noteq> Some (TypeVector a T)"
  then have "VectorIndex e idx = Inl ErrNotVector"
    by (auto simp: VectorIndex_def split: option.splits Type.splits)
  then show "arrayIndex_apply idx e = emptyValue"
    by (simp add: arrayIndex_apply_def)
next
  assume a: "Type e = Some (TypeVector a T)" "elements (Iter e) = Inr zvs"
    "idx < 0 \<or> int (length zvs) \<le> idx"
  have "VectorIndex e idx = Inl ErrIndex"
  proof (cases "idx < 0")
    case True
    with a(1) show ?thesis by (simp add: VectorIndex_def)
  next
    case False
    with a(3) have "int (length zvs) \<le> idx" by simp
    with False a(1) show ?thesis
      using VectorIndex_loop_elements [OF a(2), of 0 idx T] by (simp add: VectorIndex_def)
  qed
  with a(1) show "arrayIndex_apply idx e = \<lparr>Type = Some T, Body = None\<rparr>"
    by (simp add: arrayIndex_apply_def InnerType_def)
next
  show "apply_ops ops emptyValue = emptyValue" by (rule apply_ops_empty)
  show "Type emptyValue = None" "Body emptyValue = None" by (simp_all add: emptyValue_def)
qed

theorem evaluator_recovers_witness:
  "CompileFieldExpr long_degree = Inr (resolver ''long'' [fieldRead ''degree'']) \<and>
   resolver ''nosuch'' [fieldRead ''degree''] northPole = emptyValue \<and>
   fieldRead_apply ''x'' \<lparr>Type = Some TypeString, Body = Some [0x61]\<rparr> = emptyValue \<and>
   fieldRead_apply ''nosuch'' \<lparr>Type = Some LL, Body = Some [0x04, 0x4E, 0x01]\<rparr> = emptyValue \<and>
   arrayIndex_apply 0 \<lparr>Type = Some TypeString, Body = Some [0x61]\<rparr> = emptyValue \<and>
   arrayIndex_apply 7 \<lparr>Type = Some (TypeVector 3 TypeInt), Body = Some [0x04, 0x07]\<rparr> =
     \<lparr>Type = Some TypeInt, Body = None\<rparr>"
proof -
  have a: "CompileFieldExpr long_degree = Inr (resolver ''long'' [fieldRead ''degree''])"
    by (simp add: CompileFieldExpr_def long_degree_def)
  have b: "resolver ''nosuch'' [fieldRead ''degree''] northPole = emptyValue"
    using evaluator_recovers [where r = northPole and field = "''nosuch''"
        and ops = "[fieldRead ''degree'']"]
    by (simp add: LUT_def northPole_def cityType_def)
  have c: "fieldRead_apply ''x'' \<lparr>Type = Some TypeString, Body = Some [0x61]\<rparr> = emptyValue"
    using evaluator_recovers [where e = "\<lparr>Type = Some TypeString, Body = Some [0x61]\<rparr>"
        and fld = "''x''"]
    by simp
  have d: "fieldRead_apply ''nosuch'' \<lparr>Type = Some LL, Body = Some [0x04, 0x4E, 0x01]\<rparr> = emptyValue"
    using evaluator_recovers [where e = "\<lparr>Type = Some LL, Body = Some [0x04, 0x4E, 0x01]\<rparr>"
        and fld = "''nosuch''" and a = 0
        and cols = "[Column ''compass'' TypeString, Column ''degree'' TypeDouble]"
        and key = "recordString0 [Column ''compass'' TypeString, Column ''degree'' TypeDouble]"]
    by (simp add: LL_def)
  have e: "arrayIndex_apply 0 \<lparr>Type = Some TypeString, Body = Some [0x61]\<rparr> = emptyValue"
    using evaluator_recovers [where e = "\<lparr>Type = Some TypeString, Body = Some [0x61]\<rparr>"
        and idx = 0]
    by simp
  have n1: "Next [0x04, 0x07] = Inr (Some [0x07], False, [])"
    by (simp add: Next_def uvarint_def Let_def)
  have el: "elements [0x04, 0x07] = Inr [Some [0x07]]"
    by (simp add: elements_Next [OF _ n1] elements_Done Done_def)
  have f: "arrayIndex_apply 7 \<lparr>Type = Some (TypeVector 3 TypeInt), Body = Some [0x04, 0x07]\<rparr> =
      \<lparr>Type = Some TypeInt, Body = None\<rparr>"
    using evaluator_recovers [where e = "\<lparr>Type = Some (TypeVector 3 TypeInt), Body = Some [0x04, 0x07]\<rparr>"
        and idx = 7 and a = 3 and T = TypeInt and zvs = "[Some [0x07]]"] el
    by (simp add: Iter_def)
  from a b c d e f show ?thesis by simp
qed

theorem evaluator_type_counterexample:
  "evalFieldExpr (FieldCall ''RecordFieldRead'' ''x'' (FieldRead ''city'')) northPole =
     Inr \<lparr>Type = None, Body = None\<rparr> \<and>
   evalFieldExpr (FieldCall ''Index'' ''0'' (FieldRead ''city'')) northPole =
     Inr \<lparr>Type = None, Body = None\<rparr> \<and>
   evalFieldExpr (FieldRead ''nosuch'') northPole = Inr \<lparr>Type = None, Body = None\<rparr>"
  by (simp add: evalFieldExpr_def CompileFieldExpr_def resolver_def LUT_def Record_Value_def
      northPole_def cityType_def fieldRead_apply_def arrayIndex_apply_def VectorIndex_def
      ParseInt_def ParseUint_def isDigit_def
      Done_def Next_def uvarint_def Let_def emptyValue_def)

end
